theory Spec2Isabelle
  imports Main "HOL-Library.AList" "HOL-Library.Sublist"
begin

section \<open>protodot: symbol registry, type resolution, inclusion graph and selection\<close>

text \<open>
  A shallow embedding of \<^verbatim>\<open>main.go\<close>.  Go strings are byte strings and become
  \<^typ>\<open>string\<close>; a Go \<^verbatim>\<open>map\<close> becomes an association list whose keys are kept
  distinct by \<^const>\<open>AList.update\<close>, read with \<^const>\<open>map_of\<close>.  Go leaves the
  iteration order of a map unspecified; where the source ranges over a map the
  embedding ranges over the list from its head.  The pointer receiver
  \<^verbatim>\<open>pbs *pbstate\<close> becomes a state record that every operation takes and returns.
  The counter of \<^verbatim>\<open>pbstate\<close> is a Go \<^verbatim>\<open>int\<close> that starts at 100 and is only
  ever incremented; it is a \<^typ>\<open>nat\<close> here, so the wrap-around of the 64-bit
  integer, \<^verbatim>\<open>2^63\<close> aliases away, is not part of the embedding.
\<close>

subsection \<open>Data model\<close>

type_synonym OriginalName = string
type_synonym FullName = string
type_synonym UniqueName = string

datatype Kind = Unknown | Simple | Enum | Message | Missing

abbreviation typenameRPC :: string where "typenameRPC \<equiv> ''rpc''"
abbreviation typenameService :: string where "typenameService \<equiv> ''service''"
abbreviation typenameEnum :: string where "typenameEnum \<equiv> ''enum''"
abbreviation typenameMessage :: string where "typenameMessage \<equiv> ''message''"
abbreviation typenameMissing :: string where "typenameMissing \<equiv> ''missing''"
abbreviation separator :: string where "separator \<equiv> ''.''"

text \<open>The parts of the parse tree of \<^verbatim>\<open>github.com/emicklei/proto\<close> that the handlers read.\<close>

datatype RPC = RPC (rpc_Name: string) (RequestType: string) (ReturnsType: string)
  (StreamsRequest: bool) (StreamsReturns: bool)

datatype service_element = SrvRPC RPC | SrvOption | SrvComment | SrvOther

datatype enum_element = EnumField string int | EnumOption | EnumComment | EnumReserved | EnumOther

datatype oneof_element =
  OneOfField (oof_Name: string) (oof_Type: string)
  | OneofOption | OneofComment | OneofGroup | OneofOther

datatype Service = Service (srv_Name: string) (srv_PosFilename: string)
  (srv_Elements: "service_element list")

datatype Oneof = Oneof (oneof_Name: string) (oneof_Elements: "oneof_element list")

text \<open>
  One type for every node that \<^verbatim>\<open>proto.Walk\<close> can visit at the top level of a file
  or in the body of a message.  \<open>EMessage n ext pos els\<close> is a message named \<open>n\<close>,
  with its \<^verbatim>\<open>IsExtend\<close> flag, the file name of its position and its elements.
  The elements of a oneof and of a service are kept as leaves: a group inside a
  oneof is represented without its body, so what is declared inside such a group
  is outside the embedding.
\<close>

datatype element =
  ESyntax string
  | EImport string
  | EPackage string
  | EOption string
  | EEnum string string "enum_element list"
  | EMessage string bool string "element list"
  | EService Service
  | ENormalField string string bool int
  | EMapField string string string int
  | EOneof Oneof
  | EReserved
  | EComment
  | EExtensions
  | EGroup "element list"
  | EOther

text \<open>The \<^verbatim>\<open>Parent\<close> chain of a message, an enum or a service.\<close>

datatype parent_node =
  PProto string "element list"
  | PMessage parent_node string
  | PGroup
  | POther

datatype object = ObjNil | ObjRPC RPC | ObjService Service

record tinfo =
  fullname :: FullName
  unique :: UniqueName
  name :: string
  typename :: string
  filename :: string
  comment :: string
  raw :: string
  protopack :: string
  parent :: FullName
  object :: object

definition tinfo0 :: tinfo where
  "tinfo0 = \<lparr>fullname = [], unique = [], name = [], typename = [], filename = [],
     comment = [], raw = [], protopack = [], parent = [], object = ObjNil\<rparr>"

record pkgInfo =
  packageName :: string
  fileName :: string
  dependencies :: "string list"
  weak :: bool
  missing :: bool
  proto3 :: bool

definition pkgInfo0 :: pkgInfo where
  "pkgInfo0 = \<lparr>packageName = [], fileName = [], dependencies = [], weak = False,
     missing = False, proto3 = False\<rparr>"

text \<open>
  Diagnostics.  \<^verbatim>\<open>alert\<close>, \<^verbatim>\<open>assert\<close>, \<^verbatim>\<open>status\<close>, \<^verbatim>\<open>debug\<close> and
  \<^verbatim>\<open>trace\<close> are declared outside \<^verbatim>\<open>main.go\<close>.  Every call site continues after
  the call (with a fallback \<^verbatim>\<open>return\<close> where one is needed), so a call is modelled
  as an entry appended to a log and control goes on.  The log keeps the alerts,
  asserts and status lines, the collision line of \<^verbatim>\<open>saveMapping\<close> and the
  \<^verbatim>\<open>processing file:\<close> line of \<^verbatim>\<open>process\<close>.
\<close>

datatype diag =
  Alert "string list"
  | Assert "string list"
  | Status "string list"
  | Debug "string list"
  | Trace "string list"

text \<open>What is handed to the renderer at the end of a root run.\<close>

datatype emitted =
  EmitInclusion bool bool "(FullName \<times> tinfo) list" "(UniqueName \<times> (UniqueName \<times> int) list) list"
  | EmitDependencyTree "(string \<times> pkgInfo) list"

record pbstate =
  knownFiles :: "(string \<times> pkgInfo) list"
  types237 :: "(FullName \<times> tinfo) list"
  translate :: "(OriginalName \<times> FullName list) list"
  inclusions :: "(UniqueName \<times> (UniqueName \<times> int) list) list"
  resolutions :: "(FullName \<times> (OriginalName \<times> FullName) list) list"
  diveDepth :: int
  counter :: nat
  knownNames :: "(UniqueName \<times> FullName) list"
  dive :: bool
  proto :: string
  pkg :: string
  rootDir :: string
  outputFile :: string
  selection :: string
  incMapping :: "(string \<times> string) list"
  writer :: "emitted list"
  log :: "diag list"

definition NewPbs :: pbstate where
  "NewPbs = \<lparr>knownFiles = [], types237 = [], translate = [], inclusions = [],
     resolutions = [], diveDepth = 0, counter = 100, knownNames = [], dive = True,
     proto = [], pkg = [], rootDir = [], outputFile = [], selection = [],
     incMapping = [], writer = [], log = []\<rparr>"

text \<open>Requests to the template renderer (\<^verbatim>\<open>plus.ApplyTemplate\<close>, \<^verbatim>\<open>newTable\<close>).\<close>

datatype table_row =
  RowField string string string int Kind
  | RowOneof FullName Oneof
  | RowMap string string string int Kind

datatype render_req =
  RenderMissing OriginalName UniqueName FullName
  | RenderEnum string UniqueName FullName "enum_element list"
  | RenderService string UniqueName FullName "service_element list"
  | RenderTable string FullName UniqueName "table_row list"

text \<open>
  What the run takes from outside \<^verbatim>\<open>main.go\<close>: the predicate \<^verbatim>\<open>isSimpleType\<close>,
  the two toggles read through \<^verbatim>\<open>options\<close>, the renderer, and the file system
  with the parser behind it.
\<close>

record env =
  isSimpleType :: "string \<Rightarrow> bool"
  show_missing_types :: bool
  allow_missing_imports :: bool
  render :: "render_req \<Rightarrow> string"
  Hash :: "string \<Rightarrow> string"
  Glob :: "string \<Rightarrow> string list option"
  pathSplit :: "string \<Rightarrow> string \<times> string"
  Find :: "string \<Rightarrow> string \<Rightarrow> string option"
  Parse :: "string \<Rightarrow> element list"
  outputTarget :: "string \<Rightarrow> string \<Rightarrow> string"

datatype error = Panic string

definition say :: "diag \<Rightarrow> pbstate \<Rightarrow> pbstate" where
  "say d pbs = pbs\<lparr>log := log pbs @ [d]\<rparr>"

subsection \<open>Decimal rendering for \<^verbatim>\<open>fmt.Sprintf("Ja_%d", n)\<close>\<close>

definition digit_char :: "nat \<Rightarrow> char" where
  "digit_char d = char_of (48 + d)"

fun string_of_nat :: "nat \<Rightarrow> string" where
  "string_of_nat n =
     (if n < 10 then [digit_char n] else string_of_nat (n div 10) @ [digit_char (n mod 10)])"

declare string_of_nat.simps [simp del]

subsection \<open>Aliases, resolutions and inclusions\<close>

definition full2info :: "pbstate \<Rightarrow> FullName \<Rightarrow> tinfo option" where
  "full2info pbs nm = map_of (types237 pbs) nm"

definition unique2info :: "pbstate \<Rightarrow> UniqueName \<Rightarrow> tinfo option" where
  "unique2info pbs nm =
     (case map_of (knownNames pbs) nm of
        Some full \<Rightarrow> full2info pbs full
      | None \<Rightarrow> None)"

text \<open>Reading a Go map of structs at an absent key gives the zero value.\<close>

definition types237_at :: "pbstate \<Rightarrow> FullName \<Rightarrow> tinfo" where
  "types237_at pbs nm = (case map_of (types237 pbs) nm of Some i \<Rightarrow> i | None \<Rightarrow> tinfo0)"

definition getUniqueName :: "pbstate \<Rightarrow> OriginalName \<Rightarrow> FullName \<Rightarrow> UniqueName \<times> pbstate" where
  "getUniqueName pbs short full =
     (if map_of (knownNames pbs) short = Some full then (short, pbs)
      else
        let nm = ''Ja_'' @ string_of_nat (counter pbs)
        in (nm, pbs\<lparr>counter := counter pbs + 1,
                     knownNames := AList.update nm full (knownNames pbs)\<rparr>))"

definition addResolution :: "pbstate \<Rightarrow> FullName \<Rightarrow> OriginalName \<Rightarrow> FullName \<Rightarrow> pbstate" where
  "addResolution pbs scope shorttype fulltype =
     (let inner = (case map_of (resolutions pbs) scope of Some m \<Rightarrow> m | None \<Rightarrow> [])
      in pbs\<lparr>resolutions :=
               AList.update scope (AList.update shorttype fulltype inner) (resolutions pbs)\<rparr>)"

definition missingByName :: "pbstate \<Rightarrow> OriginalName \<Rightarrow> tinfo option" where
  "missingByName pbs shorttype =
     find (\<lambda>info. typename info = typenameMissing \<and> name info = shorttype)
       (map snd (types237 pbs))"

definition getResolution :: "pbstate \<Rightarrow> FullName \<Rightarrow> OriginalName \<Rightarrow> tinfo option" where
  "getResolution pbs scope shorttype =
     (case (case map_of (resolutions pbs) scope of
              Some m \<Rightarrow> map_of m shorttype
            | None \<Rightarrow> None) of
        Some fulltype \<Rightarrow>
          (case map_of (types237 pbs) fulltype of
             Some info \<Rightarrow> Some info
           | None \<Rightarrow> missingByName pbs shorttype)
      | None \<Rightarrow> missingByName pbs shorttype)"

definition inclusionKey :: "UniqueName \<Rightarrow> string \<Rightarrow> UniqueName" where
  "inclusionKey from field = (if field \<noteq> [] then from @ '':'' @ field else from)"

definition recordInclusion :: "pbstate \<Rightarrow> UniqueName \<Rightarrow> string \<Rightarrow> UniqueName \<Rightarrow> pbstate" where
  "recordInclusion pbs from field to =
     (let fullFrom = inclusionKey from field;
          inner = (case map_of (inclusions pbs) fullFrom of Some m \<Rightarrow> m | None \<Rightarrow> []);
          n = (case map_of inner to of Some c \<Rightarrow> c | None \<Rightarrow> 0)
      in pbs\<lparr>inclusions := AList.update fullFrom (AList.update to (n + 1) inner) (inclusions pbs)\<rparr>)"

definition renderMissingNode :: "env \<Rightarrow> OriginalName \<Rightarrow> UniqueName \<Rightarrow> FullName \<Rightarrow> string" where
  "renderMissingNode E nm uq full = render E (RenderMissing nm uq full)"

definition recordMissingType :: "env \<Rightarrow> pbstate \<Rightarrow> UniqueName \<Rightarrow> OriginalName \<Rightarrow> UniqueName \<times> pbstate" where
  "recordMissingType E pbs from missingType =
     (let fulltype = ''missing.'' @ from @ ''.'' @ missingType
      in case map_of (types237 pbs) fulltype of
           None \<Rightarrow>
             let (uq, pbs1) = getUniqueName pbs missingType fulltype
             in (uq, pbs1\<lparr>types237 := AList.update fulltype
                   (tinfo0\<lparr>typename := typenameMissing, fullname := fulltype, unique := uq,
                      name := missingType, protopack := proto pbs1,
                      raw := renderMissingNode E missingType uq fulltype\<rparr>)
                   (types237 pbs1)\<rparr>)
         | Some info \<Rightarrow> (unique info, pbs))"

definition recordMissingInclusion :: "env \<Rightarrow> pbstate \<Rightarrow> UniqueName \<Rightarrow> string \<Rightarrow> OriginalName \<Rightarrow> pbstate" where
  "recordMissingInclusion E pbs from field missingType =
     (if show_missing_types E then
        let (uq, pbs1) = recordMissingType E pbs from missingType
        in recordInclusion pbs1 from field uq
      else pbs)"

definition getInclusion :: "pbstate \<Rightarrow> UniqueName \<Rightarrow> string \<Rightarrow> UniqueName \<times> (UniqueName \<times> int) list option" where
  "getInclusion pbs from field =
     (let fullFrom = inclusionKey from field
      in case map_of (inclusions pbs) fullFrom of
           Some inc \<Rightarrow> (fullFrom, Some inc)
         | None \<Rightarrow> ([], None))"

subsection \<open>Declarations (pass 1)\<close>

text \<open>
  \<open>PProto f els\<close> is the file \<open>f\<close> with its top-level elements, from which
  \<^verbatim>\<open>getPackageName\<close> reads the package.
\<close>

fun getPackageName :: "element list \<Rightarrow> string" where
  "getPackageName [] = []"
| "getPackageName (EPackage nm # rest) = nm"
| "getPackageName (e # rest) = getPackageName rest"

fun getParent :: "parent_node \<Rightarrow> string" where
  "getParent (PProto f els) = getPackageName els"
| "getParent (PMessage p nm) = getParent p @ separator @ nm"
| "getParent PGroup = []"
| "getParent POther = []"

definition getFullName :: "parent_node \<Rightarrow> string \<Rightarrow> FullName" where
  "getFullName p nm = getParent p @ separator @ nm"

definition saveMapping :: "pbstate \<Rightarrow> OriginalName \<Rightarrow> FullName \<Rightarrow> pbstate" where
  "saveMapping pbs short full =
     (case map_of (translate pbs) short of
        Some fulls \<Rightarrow>
          (say (Debug [''ERROR: there is a collision for name:'', short]) pbs)
            \<lparr>translate := AList.update short (fulls @ [full]) (translate pbs)\<rparr>
      | None \<Rightarrow> pbs\<lparr>translate := AList.update short [full] (translate pbs)\<rparr>)"

definition handleEnumDeclaration ::
  "env \<Rightarrow> pbstate \<Rightarrow> parent_node \<Rightarrow> string \<Rightarrow> string \<Rightarrow> enum_element list \<Rightarrow> pbstate" where
  "handleEnumDeclaration E pbs p nm pos els =
     (let full = getFullName p nm;
          (uq, pbs1) = getUniqueName pbs nm full;
          pbs2 = saveMapping pbs1 nm full
      in pbs2\<lparr>types237 := AList.update full
            (tinfo0\<lparr>typename := typenameEnum, fullname := full, unique := uq, name := nm,
               filename := pos, raw := render E (RenderEnum nm uq full els),
               protopack := pkg pbs2\<rparr>)
            (types237 pbs2)\<rparr>)"

definition handleMessageDeclaration ::
  "pbstate \<Rightarrow> parent_node \<Rightarrow> string \<Rightarrow> bool \<Rightarrow> string \<Rightarrow> pbstate" where
  "handleMessageDeclaration pbs p nm isExtend pos =
     (if isExtend then pbs
      else
        let par = getParent p;
            full = getFullName p nm;
            (uq, pbs1) = getUniqueName pbs nm full;
            pbs2 = saveMapping pbs1 nm full
        in pbs2\<lparr>types237 := AList.update full
              (tinfo0\<lparr>typename := typenameMessage, fullname := full, unique := uq, name := nm,
                 filename := pos, comment := par, protopack := proto pbs2\<rparr>)
              (types237 pbs2)\<rparr>)"

fun declareRPCs :: "pbstate \<Rightarrow> FullName \<Rightarrow> string \<Rightarrow> string \<Rightarrow> service_element list \<Rightarrow> pbstate" where
  "declareRPCs pbs srvFull pos cmd [] = pbs"
| "declareRPCs pbs srvFull pos cmd (SrvRPC actual # rest) =
     (let full = srvFull @ ''.'' @ rpc_Name actual;
          pbs1 = saveMapping pbs (rpc_Name actual) full;
          (uq, pbs2) = getUniqueName pbs1 (rpc_Name actual) full;
          pbs3 = pbs2\<lparr>types237 := AList.update full
                   (tinfo0\<lparr>typename := typenameRPC, fullname := full, unique := uq,
                      name := rpc_Name actual, filename := pos, comment := cmd,
                      protopack := proto pbs2, parent := srvFull, object := ObjRPC actual\<rparr>)
                   (types237 pbs2)\<rparr>
      in declareRPCs pbs3 srvFull pos cmd rest)"
| "declareRPCs pbs srvFull pos cmd (e # rest) = declareRPCs pbs srvFull pos cmd rest"

definition handleServiceDeclaration :: "env \<Rightarrow> pbstate \<Rightarrow> parent_node \<Rightarrow> Service \<Rightarrow> pbstate" where
  "handleServiceDeclaration E pbs p srv =
     (let full = getFullName p (srv_Name srv);
          pbs1 = saveMapping pbs (srv_Name srv) full;
          (srvUniqueName, pbs2) = getUniqueName pbs1 (srv_Name srv) full;
          cmd = (case p of PProto f els \<Rightarrow> f | PMessage q nm \<Rightarrow> nm | _ \<Rightarrow> []);
          pbs3 = declareRPCs pbs2 full (srv_PosFilename srv) cmd (srv_Elements srv)
      in pbs3\<lparr>types237 := AList.update full
            (tinfo0\<lparr>typename := typenameService, fullname := full, unique := srvUniqueName,
               name := srv_Name srv, filename := srv_PosFilename srv, comment := cmd,
               protopack := proto pbs3,
               raw := render E (RenderService (srv_Name srv) srvUniqueName full (srv_Elements srv)),
               object := ObjService srv\<rparr>)
            (types237 pbs3)\<rparr>)"

text \<open>
  \<^verbatim>\<open>currentPkgInfo\<close> returns a pointer into \<^verbatim>\<open>knownFiles\<close>; a write through it
  changes the entry of the current file.  Without such an entry the source
  asserts and writes to a fresh \<^verbatim>\<open>pkgInfo\<close> that nobody reads.
\<close>

definition updCurrentPkgInfo :: "pbstate \<Rightarrow> (pkgInfo \<Rightarrow> pkgInfo) \<Rightarrow> pbstate" where
  "updCurrentPkgInfo pbs f =
     (case (if proto pbs \<noteq> [] then map_of (knownFiles pbs) (proto pbs) else None) of
        Some info \<Rightarrow> pbs\<lparr>knownFiles := AList.update (proto pbs) (f info) (knownFiles pbs)\<rparr>
      | None \<Rightarrow> say (Assert [''somehow there is no pkgInfo available...'']) pbs)"

definition handleSyntax :: "pbstate \<Rightarrow> string \<Rightarrow> pbstate" where
  "handleSyntax pbs v = updCurrentPkgInfo pbs (\<lambda>i. i\<lparr>proto3 := (v = ''proto3'')\<rparr>)"

definition handlePackageDeclaration :: "pbstate \<Rightarrow> string \<Rightarrow> pbstate" where
  "handlePackageDeclaration pbs nm =
     updCurrentPkgInfo (pbs\<lparr>pkg := nm\<rparr>) (\<lambda>i. i\<lparr>packageName := nm\<rparr>)"

subsection \<open>Type resolution (pass 2)\<close>

fun split_on :: "char \<Rightarrow> string \<Rightarrow> string list" where
  "split_on c [] = [[]]"
| "split_on c (x # xs) =
     (if x = c then [] # split_on c xs
      else (case split_on c xs of [] \<Rightarrow> [[x]] | p # ps \<Rightarrow> (x # p) # ps))"

text \<open>
  The loop of the first branch of \<^verbatim>\<open>resolveType\<close>.  The slice
  \<^verbatim>\<open>one[:len(one)-len(local)-len(separator)]\<close> panics when the bound is negative.
\<close>

definition namespaceOf :: "OriginalName \<Rightarrow> FullName \<Rightarrow> string" where
  "namespaceOf local one = take (length one - length local - length separator) one"

fun pickByNamespace :: "FullName \<Rightarrow> OriginalName \<Rightarrow> FullName list \<Rightarrow> FullName \<Rightarrow> error + FullName" where
  "pickByNamespace full local [] found = Inr found"
| "pickByNamespace full local (one # rest) found =
     (if length one < length local + length separator
      then Inl (Panic ''slice bounds out of range'')
      else
        let namespace = namespaceOf local one
        in pickByNamespace full local rest
             (if prefix namespace full \<and> length one > length found then one else found))"

text \<open>
  The loop of the branch for a dotted reference, over the keys of \<^verbatim>\<open>types237\<close>.
  The source ranges over a map, in an order that Go does not fix, and keeps the
  first name it meets among the qualifying names of the greatest length; here the
  keys are met in the order of the list.  The theorems on this branch hold for
  every order of the list and speak of a longest qualifying name only.
\<close>

definition qualifierOf :: "OriginalName \<Rightarrow> FullName \<Rightarrow> string" where
  "qualifierOf local tn =
     (let prefix0 = take (length tn - length local) tn
      in if suffix separator prefix0
         then take (length prefix0 - length separator) prefix0 else prefix0)"

fun pickBySuffix :: "FullName \<Rightarrow> OriginalName \<Rightarrow> FullName list \<Rightarrow> FullName \<Rightarrow> FullName" where
  "pickBySuffix full local [] found = found"
| "pickBySuffix full local (tn # rest) found =
     pickBySuffix full local rest
       (if suffix local tn then
          (if prefix (qualifierOf local tn) full \<and> length tn > length found then tn else found)
        else found)"

definition resolveType :: "env \<Rightarrow> pbstate \<Rightarrow> FullName \<Rightarrow> OriginalName \<Rightarrow> error + pbstate" where
  "resolveType E pbs full local =
     (if isSimpleType E local then Inr pbs
      else if getResolution pbs full local \<noteq> None then Inr pbs
      else
        let cands = (case map_of (translate pbs) local of Some fulls \<Rightarrow> fulls | None \<Rightarrow> [])
        in if length cands > 1 then
             (case pickByNamespace full local cands [] of
                Inl e \<Rightarrow> Inl e
              | Inr found \<Rightarrow>
                  if length found > 0 then Inr (addResolution pbs full local found)
                  else Inr (say (Alert [''!! there is more than one definition of type ['',
                         local, ''], used in '', full]) pbs))
           else if length (split_on CHR ''.'' local) > 1 then
             (let found = pickBySuffix full local (map fst (types237 pbs)) []
              in if length found > 0 then Inr (addResolution pbs full local found)
                 else Inr (say (Alert [''!! failed to find full.type.name for type ['',
                        local, ''], used in '', full]) pbs))
           else
             (case map_of (translate pbs) local of
                Some [one] \<Rightarrow> Inr (addResolution pbs full local one)
              | _ \<Rightarrow> Inr (say (Alert [''failed to resolve type:'', local, ''; scope:'', full]) pbs)))"

fun resolveOneofFields :: "env \<Rightarrow> FullName \<Rightarrow> oneof_element list \<Rightarrow> pbstate \<Rightarrow> error + pbstate" where
  "resolveOneofFields E full [] pbs = Inr pbs"
| "resolveOneofFields E full (OneOfField nm ty # rest) pbs =
     (if \<not> isSimpleType E ty then
        (case resolveType E pbs full ty of
           Inl e \<Rightarrow> Inl e
         | Inr pbs1 \<Rightarrow> resolveOneofFields E full rest pbs1)
      else resolveOneofFields E full rest pbs)"
| "resolveOneofFields E full (e # rest) pbs = resolveOneofFields E full rest pbs"

fun resolveMessageElements :: "env \<Rightarrow> FullName \<Rightarrow> element list \<Rightarrow> pbstate \<Rightarrow> error + pbstate" where
  "resolveMessageElements E full [] pbs = Inr pbs"
| "resolveMessageElements E full (EOneof actual # rest) pbs =
     (case resolveOneofFields E full (oneof_Elements actual) pbs of
        Inl e \<Rightarrow> Inl e
      | Inr pbs1 \<Rightarrow> resolveMessageElements E full rest pbs1)"
| "resolveMessageElements E full (ENormalField nm ty rep sq # rest) pbs =
     (case resolveType E pbs full ty of
        Inl e \<Rightarrow> Inl e
      | Inr pbs1 \<Rightarrow> resolveMessageElements E full rest pbs1)"
| "resolveMessageElements E full (EMapField nm kty ty sq # rest) pbs =
     (case resolveType E pbs full ty of
        Inl e \<Rightarrow> Inl e
      | Inr pbs1 \<Rightarrow> resolveMessageElements E full rest pbs1)"
| "resolveMessageElements E full (e # rest) pbs = resolveMessageElements E full rest pbs"

definition handleMessageTypeResolution ::
  "env \<Rightarrow> pbstate \<Rightarrow> parent_node \<Rightarrow> string \<Rightarrow> element list \<Rightarrow> error + pbstate" where
  "handleMessageTypeResolution E pbs p nm els =
     resolveMessageElements E (getFullName p nm) els pbs"

fun resolveServiceElements :: "env \<Rightarrow> FullName \<Rightarrow> service_element list \<Rightarrow> pbstate \<Rightarrow> error + pbstate" where
  "resolveServiceElements E full [] pbs = Inr pbs"
| "resolveServiceElements E full (SrvRPC actual # rest) pbs =
     (case resolveType E pbs full (RequestType actual) of
        Inl e \<Rightarrow> Inl e
      | Inr pbs1 \<Rightarrow>
          (case resolveType E pbs1 full (ReturnsType actual) of
             Inl e \<Rightarrow> Inl e
           | Inr pbs2 \<Rightarrow> resolveServiceElements E full rest pbs2))"
| "resolveServiceElements E full (e # rest) pbs = resolveServiceElements E full rest pbs"

definition handleServiceTypeResolution :: "env \<Rightarrow> pbstate \<Rightarrow> parent_node \<Rightarrow> Service \<Rightarrow> error + pbstate" where
  "handleServiceTypeResolution E pbs p srv =
     resolveServiceElements E (getFullName p (srv_Name srv)) (srv_Elements srv) pbs"

subsection \<open>Bodies and edges (pass 3)\<close>

definition typename2kind :: "string \<Rightarrow> Kind option" where
  "typename2kind tn =
     (if tn = typenameEnum then Some Enum
      else if tn = typenameMessage then Some Message
      else if tn = typenameMissing then Some Missing
      else None)"

definition getKind :: "env \<Rightarrow> pbstate \<Rightarrow> FullName \<Rightarrow> OriginalName \<Rightarrow> Kind \<times> pbstate" where
  "getKind E pbs full what =
     (if isSimpleType E what then (Simple, pbs)
      else
        case getResolution pbs full what of
          Some info \<Rightarrow>
            (case typename2kind (typename info) of
               Some k \<Rightarrow> (k, pbs)
             | None \<Rightarrow> (Unknown, say (Assert [''Unknown typename ['', typename info,
                          ''] find while resolving type: '', what]) pbs))
        | None \<Rightarrow> (Unknown, say (Assert [''Unresolved type: '', what, ''; source: '', full]) pbs))"

definition encounteredType :: "pbstate \<Rightarrow> UniqueName \<Rightarrow> string \<Rightarrow> UniqueName \<Rightarrow> pbstate" where
  "encounteredType pbs par field typ = recordInclusion pbs par field typ"

text \<open>
  What the bodies do with one non-scalar reference: an edge to the resolved type, or
  an alert and \<^verbatim>\<open>recordMissingInclusion\<close>.  The text of the alert differs from one
  call site to the next and is passed in.
\<close>

definition includeReference ::
  "env \<Rightarrow> pbstate \<Rightarrow> FullName \<Rightarrow> UniqueName \<Rightarrow> string \<Rightarrow> OriginalName \<Rightarrow> string list \<Rightarrow> pbstate" where
  "includeReference E pbs full owner field ty msg =
     (case getResolution pbs full ty of
        Some i \<Rightarrow> recordInclusion pbs owner field (unique i)
      | None \<Rightarrow> recordMissingInclusion E (say (Alert msg) pbs) owner field ty)"

fun onOneofFields :: "env \<Rightarrow> FullName \<Rightarrow> UniqueName \<Rightarrow> oneof_element list \<Rightarrow> pbstate \<Rightarrow> pbstate" where
  "onOneofFields E full uq [] pbs = pbs"
| "onOneofFields E full uq (OneOfField nm ty # rest) pbs =
     onOneofFields E full uq rest
       (if \<not> isSimpleType E ty
        then includeReference E pbs full uq nm ty [''failed to get unique name for type'', ty]
        else pbs)"
| "onOneofFields E full uq (e # rest) pbs = onOneofFields E full uq rest pbs"

definition onOneof :: "env \<Rightarrow> pbstate \<Rightarrow> FullName \<Rightarrow> UniqueName \<Rightarrow> Oneof \<Rightarrow> pbstate" where
  "onOneof E pbs full uq one = onOneofFields E full uq (oneof_Elements one) pbs"

definition isRepeated :: "bool \<Rightarrow> string" where
  "isRepeated b = (if b then ''[...]'' else [])"

fun bodyElements ::
  "env \<Rightarrow> FullName \<Rightarrow> tinfo \<Rightarrow> element list \<Rightarrow> table_row list \<times> pbstate \<Rightarrow> table_row list \<times> pbstate" where
  "bodyElements E full info [] acc = acc"
| "bodyElements E full info (ENormalField nm ty rep sq # rest) (rows, pbs) =
     (let pbs1 = (if \<not> isSimpleType E ty
                  then includeReference E pbs full (unique info) nm ty [''failed to resolve'', ty]
                  else pbs);
          (k, pbs2) = getKind E pbs1 full ty
      in bodyElements E full info rest (rows @ [RowField (isRepeated rep) ty nm sq k], pbs2))"
| "bodyElements E full info (EOneof actual # rest) (rows, pbs) =
     (let pbs1 = onOneof E pbs full (unique info) actual
      in bodyElements E full info rest (rows @ [RowOneof full actual], pbs1))"
| "bodyElements E full info (EMapField nm kty ty sq # rest) (rows, pbs) =
     (let (k, pbs1) = getKind E pbs full ty;
          pbs2 = (if \<not> isSimpleType E ty
                  then includeReference E pbs1 full (unique info) nm ty
                         [''failed to resolve type ['', ty, ''] from '', full]
                  else pbs1)
      in bodyElements E full info rest (rows @ [RowMap nm kty ty sq k], pbs2))"
| "bodyElements E full info (e # rest) acc = bodyElements E full info rest acc"

definition handleMessageBody ::
  "env \<Rightarrow> pbstate \<Rightarrow> parent_node \<Rightarrow> string \<Rightarrow> bool \<Rightarrow> element list \<Rightarrow> pbstate" where
  "handleMessageBody E pbs p nm isExtend els =
     (if isExtend then pbs
      else
        let full = getFullName p nm;
            info = types237_at pbs full;
            (rows, pbs1) = bodyElements E full info els ([], pbs)
        in pbs1\<lparr>types237 := AList.update full
              (info\<lparr>raw := render E (RenderTable nm (fullname info) (unique info) rows)\<rparr>)
              (types237 pbs1)\<rparr>)"

text \<open>
  \<^verbatim>\<open>handleServiceBody\<close> takes \<^verbatim>\<open>info := pbs.full2info(full)\<close>, a pointer that is
  \<^verbatim>\<open>nil\<close> when the service is not registered, and reads \<^verbatim>\<open>info.unique\<close> for every
  non-scalar request or response type.
\<close>

fun serviceBodyElements ::
  "env \<Rightarrow> FullName \<Rightarrow> tinfo option \<Rightarrow> service_element list \<Rightarrow> pbstate \<Rightarrow> error + pbstate" where
  "serviceBodyElements E full info [] pbs = Inr pbs"
| "serviceBodyElements E full info (SrvRPC actual # rest) pbs =
     (if isSimpleType E (RequestType actual) \<and> isSimpleType E (ReturnsType actual)
      then serviceBodyElements E full info rest pbs
      else
        case info of
          None \<Rightarrow> Inl (Panic ''nil pointer dereference'')
        | Some i \<Rightarrow>
            let pbs1 = (if \<not> isSimpleType E (RequestType actual)
                        then includeReference E pbs full (unique i)
                               (rpc_Name actual @ ''_request'') (RequestType actual)
                               [''failed to resolve type ['', RequestType actual, ''] from '', full]
                        else pbs);
                pbs2 = (if \<not> isSimpleType E (ReturnsType actual)
                        then includeReference E pbs1 full (unique i)
                               (rpc_Name actual @ ''_response'') (ReturnsType actual)
                               [''failed to resolve type ['', ReturnsType actual, ''] from '', full]
                        else pbs1)
            in serviceBodyElements E full info rest pbs2)"
| "serviceBodyElements E full info (e # rest) pbs = serviceBodyElements E full info rest pbs"

definition handleServiceBody :: "env \<Rightarrow> pbstate \<Rightarrow> parent_node \<Rightarrow> Service \<Rightarrow> error + pbstate" where
  "handleServiceBody E pbs p srv =
     (let full = getFullName p (srv_Name srv)
      in serviceBodyElements E full (full2info pbs full) (srv_Elements srv) pbs)"

subsection \<open>The second and third walk over a file\<close>

text \<open>
  \<^verbatim>\<open>proto.Walk\<close> visits the elements of a container in order, calls the handlers on
  each, and then descends into the element when it is a container itself.  The
  handlers of these two walks react to messages and services only.
\<close>

fun walk2 :: "env \<Rightarrow> parent_node \<Rightarrow> element list \<Rightarrow> pbstate \<Rightarrow> error + pbstate" where
  "walk2 E p [] pbs = Inr pbs"
| "walk2 E p (EMessage nm ext pos els # rest) pbs =
     (case handleMessageTypeResolution E pbs p nm els of
        Inl e \<Rightarrow> Inl e
      | Inr pbs1 \<Rightarrow>
          (case walk2 E (PMessage p nm) els pbs1 of
             Inl e \<Rightarrow> Inl e
           | Inr pbs2 \<Rightarrow> walk2 E p rest pbs2))"
| "walk2 E p (EService srv # rest) pbs =
     (case handleServiceTypeResolution E pbs p srv of
        Inl e \<Rightarrow> Inl e
      | Inr pbs1 \<Rightarrow> walk2 E p rest pbs1)"
| "walk2 E p (EGroup els # rest) pbs =
     (case walk2 E PGroup els pbs of
        Inl e \<Rightarrow> Inl e
      | Inr pbs1 \<Rightarrow> walk2 E p rest pbs1)"
| "walk2 E p (e # rest) pbs = walk2 E p rest pbs"

fun walk3 :: "env \<Rightarrow> parent_node \<Rightarrow> element list \<Rightarrow> pbstate \<Rightarrow> error + pbstate" where
  "walk3 E p [] pbs = Inr pbs"
| "walk3 E p (EMessage nm ext pos els # rest) pbs =
     (case walk3 E (PMessage p nm) els (handleMessageBody E pbs p nm ext els) of
        Inl e \<Rightarrow> Inl e
      | Inr pbs1 \<Rightarrow> walk3 E p rest pbs1)"
| "walk3 E p (EService srv # rest) pbs =
     (case handleServiceBody E pbs p srv of
        Inl e \<Rightarrow> Inl e
      | Inr pbs1 \<Rightarrow> walk3 E p rest pbs1)"
| "walk3 E p (EGroup els # rest) pbs =
     (case walk3 E PGroup els pbs of
        Inl e \<Rightarrow> Inl e
      | Inr pbs1 \<Rightarrow> walk3 E p rest pbs1)"
| "walk3 E p (e # rest) pbs = walk3 E p rest pbs"

subsection \<open>Selection\<close>

datatype selection_error =
  NothingMatches string
  | MoreThanOne string "FullName list"

fun expandRoots :: "FullName list \<Rightarrow> string list \<Rightarrow> FullName list \<Rightarrow> selection_error + FullName list" where
  "expandRoots keys [] matches = Inr matches"
| "expandRoots keys (root # roots) matches =
     (if root = [] then expandRoots keys roots matches
      else
        let locals0 = filter (\<lambda>fulltype. suffix root fulltype) keys;
            locals = (if locals0 = [] then filter (\<lambda>fulltype. sublist root fulltype) keys
                      else locals0)
        in case locals of
             [] \<Rightarrow> Inl (NothingMatches root)
           | [m] \<Rightarrow> expandRoots keys roots (matches @ [m])
           | _ \<Rightarrow> Inl (MoreThanOne root locals))"

definition expandSelection :: "pbstate \<Rightarrow> string \<Rightarrow> selection_error + FullName list" where
  "expandSelection pbs sel =
     (if sel = ''*''
      then Inr (map fst (filter (\<lambda>(fulltype, info). protopack info = proto pbs) (types237 pbs)))
      else expandRoots (map fst (types237 pbs)) (split_on CHR '';'' sel) [])"

text \<open>
  The first loop of \<^verbatim>\<open>showSelectedInclusion\<close>, over the seeds that
  \<^verbatim>\<open>expandSelection\<close> returned.  It carries the work list \<^verbatim>\<open>matches\<close>, the map
  \<^verbatim>\<open>posttypes\<close>, the selected edges and the diagnostics.
\<close>

type_synonym seed_state =
  "FullName list \<times> (FullName \<times> tinfo) list \<times> (UniqueName \<times> (UniqueName \<times> int) list) list \<times> diag list"

definition seedOne :: "pbstate \<Rightarrow> FullName \<Rightarrow> seed_state \<Rightarrow> seed_state" where
  "seedOne pbs m st =
     (case st of (matches, posttypes, incl, dg) \<Rightarrow>
        let info = types237_at pbs m
        in if typename info = typenameService then st
           else if typename info = typenameRPC then
             (case object info of
                ObjRPC rpc \<Rightarrow>
                  let parentType = parent info;
                      posttypes1 = AList.update parentType (types237_at pbs parentType) posttypes;
                      incl1 = fold (\<lambda>sfx acc.
                                 case getInclusion pbs (unique (types237_at pbs parentType))
                                        (rpc_Name rpc @ sfx) of
                                   (from, Some to) \<Rightarrow> AList.update from to acc
                                 | (from, None) \<Rightarrow> acc)
                               [''_request'', ''_response''] incl;
                      matches1 = fold (\<lambda>one acc.
                                   case getResolution pbs parentType one of
                                     Some i \<Rightarrow> acc @ [fullname i]
                                   | None \<Rightarrow> acc)
                                 [RequestType rpc, ReturnsType rpc] matches
                  in (matches1, posttypes1, incl1, dg)
              | _ \<Rightarrow> (matches, posttypes, incl, dg @ [Assert [''failed to get an expected type'']]))
           else if typename info = typenameMessage then st
           else (matches, posttypes, incl,
                 dg @ [Alert [''entry of type ['', typename info, ''] is not yet supported.'']]))"

text \<open>
  The body of the work-list loop for a candidate that is new: every key of
  \<^verbatim>\<open>pbs.inclusions\<close> that starts with the candidate's alias and a colon is scanned,
  and every target alias that \<^verbatim>\<open>knownNames\<close> maps back to a qualified name is queued
  unless it is selected already.
\<close>

definition scanChild ::
  "pbstate \<Rightarrow> (FullName \<times> tinfo) list \<Rightarrow> UniqueName \<Rightarrow> (UniqueName \<times> int) list \<Rightarrow> UniqueName \<Rightarrow>
   FullName list \<times> (UniqueName \<times> (UniqueName \<times> int) list) list \<Rightarrow>
   FullName list \<times> (UniqueName \<times> (UniqueName \<times> int) list) list" where
  "scanChild pbs types key val child acc =
     (case map_of (knownNames pbs) child of
        Some fullchild \<Rightarrow>
          (if map_of types fullchild = None then fst acc @ [fullchild] else fst acc,
           AList.update key val (snd acc))
      | None \<Rightarrow> acc)"

definition scanKey ::
  "pbstate \<Rightarrow> (FullName \<times> tinfo) list \<Rightarrow> string \<Rightarrow> UniqueName \<times> (UniqueName \<times> int) list \<Rightarrow>
   FullName list \<times> (UniqueName \<times> (UniqueName \<times> int) list) list \<Rightarrow>
   FullName list \<times> (UniqueName \<times> (UniqueName \<times> int) list) list" where
  "scanKey pbs types uq kv acc =
     (if prefix uq (fst kv)
      then fold (scanChild pbs types (fst kv) (snd kv)) (map fst (snd kv)) acc
      else acc)"

definition scanInclusions ::
  "pbstate \<Rightarrow> (FullName \<times> tinfo) list \<Rightarrow> string \<Rightarrow>
   FullName list \<times> (UniqueName \<times> (UniqueName \<times> int) list) list \<Rightarrow>
   FullName list \<times> (UniqueName \<times> (UniqueName \<times> int) list) list" where
  "scanInclusions pbs types uq acc = fold (scanKey pbs types uq) (inclusions pbs) acc"

text \<open>
  The work-list loop.  It ends because every round either drops a candidate that
  is selected already or selects a new one, and only the seeds and the qualified
  names in \<^verbatim>\<open>knownNames\<close> can ever be queued.
\<close>

definition pending :: "pbstate \<Rightarrow> FullName list \<Rightarrow> (FullName \<times> tinfo) list \<Rightarrow> FullName set" where
  "pending pbs ms types = (set ms \<union> snd ` set (knownNames pbs)) - fst ` set types"

function closure ::
  "pbstate \<Rightarrow> FullName list \<Rightarrow> (FullName \<times> tinfo) list \<Rightarrow>
   (UniqueName \<times> (UniqueName \<times> int) list) list \<Rightarrow>
   (FullName \<times> tinfo) list \<times> (UniqueName \<times> (UniqueName \<times> int) list) list" where
  "closure pbs [] types incl = (types, incl)"
| "closure pbs (candidate # matches) types incl =
     (if map_of types candidate \<noteq> None then closure pbs matches types incl
      else
        let types1 = AList.update candidate (types237_at pbs candidate) types;
            uq = unique (types237_at pbs candidate) @ '':'';
            acc = scanInclusions pbs types1 uq (matches, incl)
        in closure pbs (fst acc) types1 (snd acc))"
  by pat_completeness auto
termination
proof (relation "inv_image (measure card <*lex*> measure length)
                   (\<lambda>(pbs, ms, types, incl). (pending pbs ms types, ms))")
  show "wf (inv_image (measure card <*lex*> measure length)
              (\<lambda>(pbs, ms, types, incl). (pending pbs ms types, ms)))"
    by (intro wf_inv_image wf_lex_prod wf_measure)
next
  fix pbs :: pbstate and candidate matches and types :: "(FullName \<times> tinfo) list"
    and incl :: "(UniqueName \<times> (UniqueName \<times> int) list) list"
  assume "map_of types candidate \<noteq> None"
  then have "candidate \<in> fst ` set types"
    by (metis domIff dom_map_of_conv_image_fst)
  then have "pending pbs matches types = pending pbs (candidate # matches) types"
    by (auto simp: pending_def)
  then show "((pbs, matches, types, incl), (pbs, candidate # matches, types, incl))
      \<in> inv_image (measure card <*lex*> measure length)
           (\<lambda>(pbs, ms, types, incl). (pending pbs ms types, ms))"
    by simp
next
  fix pbs :: pbstate and candidate matches and types :: "(FullName \<times> tinfo) list"
    and incl :: "(UniqueName \<times> (UniqueName \<times> int) list) list" and x xa xb
  assume a: "\<not> map_of types candidate \<noteq> None"
    and x: "x = AList.update candidate (types237_at pbs candidate) types"
    and xa: "xa = unique (types237_at pbs candidate) @ '':''"
    and xb: "xb = scanInclusions pbs x xa (matches, incl)"
  let ?K = "snd ` set (knownNames pbs)"
  have child: "set (fst (scanChild pbs x key val child acc)) \<subseteq> set (fst acc) \<union> ?K"
    for key val child acc
    by (auto simp: scanChild_def split: option.splits dest!: map_of_SomeD intro: rev_image_eqI)
  have children: "set (fst (fold (scanChild pbs x key val) cs acc)) \<subseteq> set (fst acc) \<union> ?K"
    for key val cs acc
  proof (induction cs arbitrary: acc)
    case Nil
    then show ?case by simp
  next
    case (Cons c cs)
    have "set (fst (fold (scanChild pbs x key val) cs (scanChild pbs x key val c acc)))
          \<subseteq> set (fst (scanChild pbs x key val c acc)) \<union> ?K"
      by (rule Cons.IH)
    with child [of key val c acc] show ?case by auto
  qed
  have key: "set (fst (scanKey pbs x xa kv acc)) \<subseteq> set (fst acc) \<union> ?K" for kv acc
    using children [of "fst kv" "snd kv" "map fst (snd kv)" acc] by (simp add: scanKey_def)
  have keys: "set (fst (fold (scanKey pbs x xa) kvs acc)) \<subseteq> set (fst acc) \<union> ?K" for kvs acc
  proof (induction kvs arbitrary: acc)
    case Nil
    then show ?case by simp
  next
    case (Cons kv kvs)
    have "set (fst (fold (scanKey pbs x xa) kvs (scanKey pbs x xa kv acc)))
          \<subseteq> set (fst (scanKey pbs x xa kv acc)) \<union> ?K"
      by (rule Cons.IH)
    with key [of kv acc] show ?case by auto
  qed
  from a have notin: "candidate \<notin> fst ` set types"
    by (metis domIff dom_map_of_conv_image_fst)
  have dom: "fst ` set x = insert candidate (fst ` set types)"
    unfolding x by (simp add: AList.dom_update)
  have sub: "set (fst xb) \<subseteq> set matches \<union> ?K"
    unfolding xb scanInclusions_def using keys [of "inclusions pbs" "(matches, incl)"] by simp
  have "pending pbs (fst xb) x \<subseteq> pending pbs (candidate # matches) types - {candidate}"
    using sub dom by (auto simp: pending_def)
  moreover have "candidate \<in> pending pbs (candidate # matches) types"
    using notin by (simp add: pending_def)
  ultimately have "pending pbs (fst xb) x \<subset> pending pbs (candidate # matches) types"
    by auto
  moreover have "finite (pending pbs (candidate # matches) types)"
    by (simp add: pending_def)
  ultimately have "card (pending pbs (fst xb) x) < card (pending pbs (candidate # matches) types)"
    by (simp add: psubset_card_mono)
  then show "((pbs, fst xb, x, snd xb), (pbs, candidate # matches, types, incl))
      \<in> inv_image (measure card <*lex*> measure length)
           (\<lambda>(pbs, ms, types, incl). (pending pbs ms types, ms))"
    by simp
qed

declare closure.simps [simp del]

text \<open>
  The selection that \<^verbatim>\<open>showSelectedInclusion\<close> computes from the seeds: the first
  loop, the work-list loop, and the copy of \<^verbatim>\<open>posttypes\<close> into the selected types.
\<close>

definition selectInclusion ::
  "pbstate \<Rightarrow> FullName list \<Rightarrow>
   (FullName \<times> tinfo) list \<times> (UniqueName \<times> (UniqueName \<times> int) list) list \<times> diag list" where
  "selectInclusion pbs matches0 =
     (case fold (seedOne pbs) matches0 (matches0, [], [], []) of
        (matches, posttypes, incl, dg) \<Rightarrow>
          (case closure pbs matches [] incl of
             (types, incl1) \<Rightarrow>
               (fold (\<lambda>kv acc. AList.update (fst kv) (snd kv) acc) posttypes types, incl1, dg)))"

definition showInclusion :: "pbstate \<Rightarrow> bool \<Rightarrow> bool \<Rightarrow> pbstate" where
  "showInclusion pbs groupByPackages leaveRootPackageUnwrapped =
     pbs\<lparr>writer := writer pbs @
       [EmitInclusion groupByPackages leaveRootPackageUnwrapped (types237 pbs) (inclusions pbs)]\<rparr>"

definition showSelectedInclusion :: "pbstate \<Rightarrow> string \<Rightarrow> pbstate" where
  "showSelectedInclusion pbs sel =
     (let pbs0 = say (Status [''limiting output to the following: '', sel]) pbs
      in case expandSelection pbs0 sel of
           Inl (NothingMatches root) \<Rightarrow>
             say (Status [''Cannot find anything matching your selection:'' @ root])
               (say (Status [''Cannot find anything matching your selection:'', root]) pbs0)
         | Inl (MoreThanOne root locals) \<Rightarrow>
             say (Status (''Your selection ['' # root # ''] results in more than one entry:''
                          # locals)) pbs0
         | Inr matches \<Rightarrow>
             (case selectInclusion pbs0 matches of
                (types, incl, dg) \<Rightarrow>
                  pbs0\<lparr>log := log pbs0 @ dg,
                    writer := writer pbs0 @ [EmitInclusion False True types incl]\<rparr>))"

definition showDependencyTree :: "pbstate \<Rightarrow> pbstate" where
  "showDependencyTree pbs =
     (if diveDepth pbs \<noteq> 0 then say (Assert [''need to be at the root'']) pbs
      else pbs\<lparr>writer := writer pbs @ [EmitDependencyTree (knownFiles pbs)]\<rparr>)"

subsection \<open>The run over a file and its imports\<close>

definition toLower :: "char \<Rightarrow> char" where
  "toLower c =
     (if (65::nat) \<le> of_char c \<and> of_char c \<le> (90::nat) then char_of (of_char c + (32::nat)) else c)"

text \<open>
  \<^verbatim>\<open>process\<close> calls itself through \<^verbatim>\<open>handleImport\<close> from inside the first walk.
  The functions that stand between the two calls take the callee as their first
  argument \<open>rec\<close>, and \<open>process\<close> itself is defined by recursion on a bound on
  the depth of these calls: a run that needs a deeper nest of calls than the bound
  has the value \<open>None\<close>.  A panic is \<open>Some (Inl e)\<close>.

  \<^verbatim>\<open>processFile\<close> is the part of \<^verbatim>\<open>process\<close> from the parser on, with the parsed
  elements as an argument; \<^verbatim>\<open>processMatches\<close> is the loop over the matches of a
  pattern, each run from a fresh state whose result is dropped; \<open>processStep\<close> is
  the body of \<^verbatim>\<open>process\<close>.
\<close>

type_synonym process_fun = "pbstate \<Rightarrow> string \<Rightarrow> string \<Rightarrow> (error + bool \<times> pbstate) option"

definition handleImport :: "process_fun \<Rightarrow> pbstate \<Rightarrow> string \<Rightarrow> (error + pbstate) option" where
  "handleImport rec pbs f =
     (if dive pbs then
        let prev = proto pbs;
            prev_pkg = pkg pbs;
            pbs1 = updCurrentPkgInfo pbs (\<lambda>i. i\<lparr>dependencies := dependencies i @ [f]\<rparr>);
            pbs2 = pbs1\<lparr>diveDepth := diveDepth pbs1 + 1\<rparr>
        in case rec pbs2 f [] of
             None \<Rightarrow> None
           | Some (Inl e) \<Rightarrow> Some (Inl e)
           | Some (Inr r) \<Rightarrow>
               Some (Inr ((snd r)\<lparr>diveDepth := diveDepth (snd r) - 1,
                                   pkg := prev_pkg, proto := prev\<rparr>))
      else Some (Inr pbs))"

fun walk1 :: "process_fun \<Rightarrow> env \<Rightarrow> parent_node \<Rightarrow> element list \<Rightarrow> pbstate \<Rightarrow> (error + pbstate) option" where
  "walk1 rec E p [] pbs = Some (Inr pbs)"
| "walk1 rec E p (ESyntax v # rest) pbs = walk1 rec E p rest (handleSyntax pbs v)"
| "walk1 rec E p (EImport f # rest) pbs =
     (case handleImport rec pbs f of
        None \<Rightarrow> None
      | Some (Inl e) \<Rightarrow> Some (Inl e)
      | Some (Inr pbs1) \<Rightarrow> walk1 rec E p rest pbs1)"
| "walk1 rec E p (EEnum nm pos els # rest) pbs =
     walk1 rec E p rest (handleEnumDeclaration E pbs p nm pos els)"
| "walk1 rec E p (EMessage nm ext pos els # rest) pbs =
     (case walk1 rec E (PMessage p nm) els (handleMessageDeclaration pbs p nm ext pos) of
        None \<Rightarrow> None
      | Some (Inl e) \<Rightarrow> Some (Inl e)
      | Some (Inr pbs1) \<Rightarrow> walk1 rec E p rest pbs1)"
| "walk1 rec E p (EPackage nm # rest) pbs = walk1 rec E p rest (handlePackageDeclaration pbs nm)"
| "walk1 rec E p (EService srv # rest) pbs =
     walk1 rec E p rest (handleServiceDeclaration E pbs p srv)"
| "walk1 rec E p (EGroup els # rest) pbs =
     (case walk1 rec E PGroup els pbs of
        None \<Rightarrow> None
      | Some (Inl e) \<Rightarrow> Some (Inl e)
      | Some (Inr pbs1) \<Rightarrow> walk1 rec E p rest pbs1)"
| "walk1 rec E p (e # rest) pbs = walk1 rec E p rest pbs"

fun processMatches :: "process_fun \<Rightarrow> string list \<Rightarrow> string \<Rightarrow> (error + unit) option" where
  "processMatches rec [] sel = Some (Inr ())"
| "processMatches rec (m # ms) sel =
     (case rec NewPbs m sel of
        None \<Rightarrow> None
      | Some (Inl e) \<Rightarrow> Some (Inl e)
      | Some (Inr r) \<Rightarrow> processMatches rec ms sel)"

definition processFile ::
  "process_fun \<Rightarrow> env \<Rightarrow> pbstate \<Rightarrow> string \<Rightarrow> element list \<Rightarrow> string \<Rightarrow> (error + bool \<times> pbstate) option" where
  "processFile rec E pbs original els sel =
     (let pbs1 = (if diveDepth pbs = 0
                  then pbs\<lparr>outputFile := outputTarget E original (selection pbs)\<rparr>
                  else pbs);
          pbs2 = (say (Trace [''processing file:'', original]) pbs1)
                   \<lparr>knownFiles := AList.update original (pkgInfo0\<lparr>fileName := original\<rparr>)
                                    (knownFiles pbs1),
                     proto := original\<rparr>
      in case walk1 rec E (PProto original els) els pbs2 of
           None \<Rightarrow> None
         | Some (Inl e) \<Rightarrow> Some (Inl e)
         | Some (Inr pbs3) \<Rightarrow>
             (case walk2 E (PProto original els) els pbs3 of
                Inl e \<Rightarrow> Some (Inl e)
              | Inr pbs4 \<Rightarrow>
                  (case walk3 E (PProto original els) els pbs4 of
                     Inl e \<Rightarrow> Some (Inl e)
                   | Inr pbs5 \<Rightarrow>
                       Some (Inr (True,
                         if diveDepth pbs5 = 0 then
                           (if sel \<noteq> [] then
                              (if sel = ''imports'' then showDependencyTree pbs5
                               else showSelectedInclusion pbs5 sel)
                            else showInclusion pbs5 True True)
                         else pbs5)))))"

text \<open>
  The head of \<^verbatim>\<open>process\<close>: the name after \<^verbatim>\<open>incMapping\<close>, the test for a source
  blob, and the identifier under which the file is remembered in \<^verbatim>\<open>knownFiles\<close>.
\<close>

definition mappedName :: "pbstate \<Rightarrow> string \<Rightarrow> string" where
  "mappedName pbs nm =
     (if incMapping pbs \<noteq> []
      then (case map_of (incMapping pbs) nm of Some r \<Rightarrow> r | None \<Rightarrow> nm)
      else nm)"

definition isBlob :: "string \<Rightarrow> bool" where
  "isBlob name1 = (count_list name1 CHR 0x0A > 1)"

definition originalName :: "env \<Rightarrow> pbstate \<Rightarrow> string \<Rightarrow> string" where
  "originalName E pbs nm =
     (if isBlob (mappedName pbs nm) \<and> mappedName pbs nm = nm
      then ''blob_'' @ Hash E (mappedName pbs nm) else nm)"

definition processStep :: "process_fun \<Rightarrow> env \<Rightarrow> process_fun" where
  "processStep rec E pbs nm sel =
     (let name1 = mappedName pbs nm;
          original = originalName E pbs nm;
          pbs1 = (if isBlob name1 then
                    (if diveDepth pbs = 0 then pbs\<lparr>rootDir := ''~fake~'', selection := sel\<rparr>
                     else pbs)
                  else if suffix ''.proto'' (map toLower name1) then pbs
                  else say (Assert [''undetected type of input:'', name1]) pbs)
      in case map_of (knownFiles pbs1) original of
           Some info \<Rightarrow> Some (Inr (\<not> missing info, pbs1))
         | None \<Rightarrow>
             if isBlob name1 then processFile rec E pbs1 original (Parse E name1) sel
             else
               (case Glob E name1 of
                  None \<Rightarrow> Some (Inr (False, say (Assert [''failed to find:'', name1]) pbs1))
                | Some found \<Rightarrow>
                    if length found > 1 then
                      (case processMatches rec found sel of
                         None \<Rightarrow> None
                       | Some (Inl e) \<Rightarrow> Some (Inl e)
                       | Some (Inr u) \<Rightarrow> Some (Inr (True, pbs1)))
                    else
                      let pbs2 = (if diveDepth pbs1 = 0
                                  then pbs1\<lparr>rootDir := fst (pathSplit E name1), selection := sel\<rparr>
                                  else pbs1)
                      in case Find E name1 (rootDir pbs2) of
                           None \<Rightarrow>
                             if diveDepth pbs2 > 0 \<and> allow_missing_imports E
                             then Some (Inr (False,
                                    pbs2\<lparr>knownFiles := AList.update original
                                      (pkgInfo0\<lparr>fileName := original, missing := True\<rparr>)
                                      (knownFiles pbs2)\<rparr>))
                             else Some (Inl (Panic (''failed to open ['' @ name1 @ '']'')))
                         | Some content \<Rightarrow> processFile rec E pbs2 original (Parse E content) sel))"

primrec process :: "nat \<Rightarrow> env \<Rightarrow> process_fun" where
  "process 0 E = (\<lambda>pbs nm sel. None)"
| "process (Suc n) E = processStep (process n E) E"

subsection \<open>A file system for concrete runs\<close>

text \<open>
  The concrete runs below use an environment built from a finite table of parsed
  files: the content of a file is its name, a name matches itself when the file
  exists, and the renderer returns the empty string.
\<close>

definition scalarNames :: "string list" where
  "scalarNames = [''double'', ''float'', ''int32'', ''int64'', ''uint32'', ''uint64'', ''sint32'',
     ''sint64'', ''fixed32'', ''fixed64'', ''sfixed32'', ''sfixed64'', ''bool'', ''string'', ''bytes'']"

definition fileEnv :: "(string \<times> element list) list \<Rightarrow> bool \<Rightarrow> bool \<Rightarrow> env" where
  "fileEnv files showMissing allowMissing =
     \<lparr>isSimpleType = (\<lambda>t. t \<in> set scalarNames),
      show_missing_types = showMissing,
      allow_missing_imports = allowMissing,
      render = (\<lambda>r. []),
      Hash = (\<lambda>x. x),
      Glob = (\<lambda>n. Some (if map_of files n = None then [] else [n])),
      pathSplit = (\<lambda>n. ([], n)),
      Find = (\<lambda>n r. if map_of files n = None then None else Some n),
      Parse = (\<lambda>c. case map_of files c of Some els \<Rightarrow> els | None \<Rightarrow> []),
      outputTarget = (\<lambda>orig sel. orig @ ''.dot'')\<rparr>"

definition firstFoo :: pbstate where
  "firstFoo = handleMessageDeclaration (NewPbs\<lparr>proto := ''b.proto''\<rparr>)
                (PProto ''b.proto'' [EPackage ''pkg'']) ''Foo'' False []"

definition secondFoo :: pbstate where
  "secondFoo = handleMessageDeclaration (firstFoo\<lparr>proto := ''a.proto''\<rparr>)
                (PProto ''a.proto'' [EPackage ''pkg'']) ''Foo'' False []"

definition barState :: pbstate where
  "barState = handleMessageDeclaration NewPbs (PProto ''b.proto'' [EPackage ''x.b'']) ''Bar'' False []"

text \<open>
  The placeholder entity that \<^verbatim>\<open>recordMissingType\<close> registers for an owner and a
  missing short name, when it registers one.
\<close>

definition placeholder :: "env \<Rightarrow> pbstate \<Rightarrow> UniqueName \<Rightarrow> OriginalName \<Rightarrow> tinfo" where
  "placeholder E pbs owner ty =
     (let key = ''missing.'' @ owner @ ''.'' @ ty; uq = fst (getUniqueName pbs ty key)
      in tinfo0\<lparr>typename := typenameMissing, fullname := key, unique := uq, name := ty,
           protopack := proto pbs, raw := renderMissingNode E ty uq key\<rparr>)"

definition twoOwners :: "(string \<times> element list) list" where
  "twoOwners = [(''a.proto'', [EPackage ''p'',
      EMessage ''A'' False [] [ENormalField ''x'' ''Bar'' False 1],
      EMessage ''B'' False [] [ENormalField ''y'' ''Bar'' False 1]])]"

definition twoOwnersRun :: "bool \<Rightarrow> pbstate" where
  "twoOwnersRun showMissing =
     (case process 2 (fileEnv twoOwners showMissing False) NewPbs ''a.proto'' [] of
        Some (Inr r) \<Rightarrow> snd r
      | _ \<Rightarrow> NewPbs)"

definition abState :: pbstate where
  "abState =
     handleMessageDeclaration
       (handleMessageDeclaration NewPbs (PProto ''a.proto'' [EPackage ''p'']) ''A'' False [])
       (PProto ''a.proto'' [EPackage ''p'']) ''B'' False []"

definition importerFiles :: "(string \<times> element list) list" where
  "importerFiles =
     [(''a.proto'', [EPackage ''pa'', EImport ''b.proto'', EImport ''c.proto'']),
      (''b.proto'', [EPackage ''pb'', EMessage ''Bar'' False [] []])]"

definition importing :: pbstate where
  "importing = NewPbs\<lparr>knownFiles := [(''a.proto'', pkgInfo0\<lparr>fileName := ''a.proto''\<rparr>)],
                 proto := ''a.proto'', pkg := ''pa''\<rparr>"

definition afterImport :: "string \<Rightarrow> pbstate" where
  "afterImport f =
     (case handleImport (process 2 (fileEnv importerFiles False True)) importing f of
        Some (Inr s) \<Rightarrow> s
      | _ \<Rightarrow> NewPbs)"

text \<open>
  The relations in which the selection is stated.  An entity \<open>c\<close> has an
  inclusion edge to \<open>u\<close> when some key of \<^verbatim>\<open>inclusions\<close> starts with the alias of
  \<open>c\<close> and a colon and one of its target aliases is mapped to \<open>u\<close> by
  \<^verbatim>\<open>knownNames\<close>; \<open>ownedKeys pbs c\<close> are the keys of such edges.  For an RPC
  method, \<open>rpcTargets\<close> are the entities its request and response types resolve to
  in the scope of the service and \<open>rpcKeys\<close> are the two edge keys of the method.
\<close>

definition edges :: "pbstate \<Rightarrow> (FullName \<times> FullName) set" where
  "edges pbs =
     {(c, u). \<exists>kv child. kv \<in> set (inclusions pbs)
        \<and> prefix (unique (types237_at pbs c) @ '':'') (fst kv)
        \<and> child \<in> fst ` set (snd kv)
        \<and> map_of (knownNames pbs) child = Some u}"

definition ownedKeys :: "pbstate \<Rightarrow> FullName \<Rightarrow> UniqueName set" where
  "ownedKeys pbs c =
     {k. \<exists>kv child. kv \<in> set (inclusions pbs) \<and> k = fst kv
        \<and> prefix (unique (types237_at pbs c) @ '':'') (fst kv)
        \<and> child \<in> fst ` set (snd kv)
        \<and> map_of (knownNames pbs) child \<noteq> None}"

definition rpcTargets :: "pbstate \<Rightarrow> FullName \<Rightarrow> RPC \<Rightarrow> FullName set" where
  "rpcTargets pbs svc r =
     {f. \<exists>i. f = fullname i
        \<and> (getResolution pbs svc (RequestType r) = Some i \<or> getResolution pbs svc (ReturnsType r) = Some i)}"

definition rpcKeys :: "pbstate \<Rightarrow> FullName \<Rightarrow> RPC \<Rightarrow> UniqueName set" where
  "rpcKeys pbs svc r =
     {inclusionKey (unique (types237_at pbs svc)) (rpc_Name r @ ''_request''),
      inclusionKey (unique (types237_at pbs svc)) (rpc_Name r @ ''_response'')}"

definition svcFiles :: "(string \<times> element list) list" where
  "svcFiles =
     [(''s.proto'',
       [EPackage ''p'',
        EMessage ''Req'' False [] [ENormalField ''i'' ''Inner'' False 1],
        EMessage ''Inner'' False [] [],
        EMessage ''Resp'' False [] [],
        EMessage ''Other'' False [] [],
        EService (Service ''Svc'' []
          [SrvRPC (RPC ''Get'' ''Req'' ''Resp'' False False),
           SrvRPC (RPC ''Put'' ''Other'' ''Resp'' False False)])])]"

definition svcState :: pbstate where
  "svcState =
     (case process 1 (fileEnv svcFiles False False) NewPbs ''s.proto'' [] of
        Some (Inr r) \<Rightarrow> snd r
      | _ \<Rightarrow> NewPbs)"

text \<open>
  What the theorems on the walk over the imports are stated in: the files that
  the log says were processed, the imports named anywhere in a parsed file, the
  identifiers in \<^verbatim>\<open>knownFiles\<close>, the parses a name can lead to, a set of names
  closed under import, and an environment in which no name stands for several
  files.  \<open>fview\<close> is the part of the state that only \<^verbatim>\<open>process\<close> itself
  changes; \<open>grows\<close> and \<open>goodRec\<close> are what a call of \<open>process\<close> guarantees.
\<close>

fun procLog :: "diag list \<Rightarrow> string list" where
  "procLog [] = []"
| "procLog (Trace [t, f] # ds) = (if t = ''processing file:'' then f # procLog ds else procLog ds)"
| "procLog (d # ds) = procLog ds"


definition plainElement :: "element \<Rightarrow> bool" where
  "plainElement e =
     (case e of EImport f \<Rightarrow> False | EMessage nm ext pos els \<Rightarrow> False | EGroup els \<Rightarrow> False
      | _ \<Rightarrow> True)"

definition keysOf :: "pbstate \<Rightarrow> string set" where
  "keysOf pbs = fst ` set (knownFiles pbs)"





definition fview :: "pbstate \<Rightarrow> string list \<times> (string \<times> string) list \<times> string list" where
  "fview pbs = (map fst (knownFiles pbs), incMapping pbs, procLog (log pbs))"













definition candidates :: "pbstate \<Rightarrow> OriginalName \<Rightarrow> FullName list" where
  "candidates pbs k = (case map_of (translate pbs) k of Some l \<Rightarrow> l | None \<Rightarrow> [])"

definition regLe :: "pbstate \<Rightarrow> pbstate \<Rightarrow> bool" where
  "regLe s s' =
     ((\<forall>k. set (candidates s k) \<subseteq> set (candidates s' k))
      \<and> fst ` set (types237 s) \<subseteq> fst ` set (types237 s'))"

definition registered :: "pbstate \<Rightarrow> OriginalName \<Rightarrow> FullName \<Rightarrow> bool" where
  "registered s k full = (full \<in> set (candidates s k) \<and> full \<in> fst ` set (types237 s))"


definition keeps :: "pbstate \<Rightarrow> pbstate \<Rightarrow> bool" where
  "keeps s s' = (translate s' = translate s \<and> fst ` set (types237 s) \<subseteq> fst ` set (types237 s'))"

text \<open>
  Three more file systems.  In \<open>shadowFiles\<close> the root file imports a file
  whose message refers to \<^verbatim>\<open>Foo\<close> before any \<^verbatim>\<open>Foo\<close> is declared, then a file that
  declares \<^verbatim>\<open>pkg.a.Foo\<close>, and declares \<^verbatim>\<open>pkg.a.b.Foo\<close> and a message that refers
  to \<^verbatim>\<open>Foo\<close> itself.  In \<open>lateFiles\<close> the root file imports a file with a
  service and declares the request and response types of its method after the
  import.  In \<open>cycFiles\<close> two files import each other and each refers to the
  message of the other.  \<open>cycPass1\<close> and \<open>cycPass2\<close> are the states after
  the first and the second walk over the root file of \<open>cycFiles\<close>.
\<close>

definition shadowFiles :: "(string \<times> element list) list" where
  "shadowFiles =
     [(''root.proto'', [EPackage ''pkg.a.b'', EImport ''other.proto'', EImport ''a.proto'',
                        EMessage ''Foo'' False [] [],
                        EMessage ''Handler'' False [] [ENormalField ''x'' ''Foo'' False 1]]),
      (''other.proto'', [EPackage ''other'', EMessage ''M'' False [] [ENormalField ''f'' ''Foo'' False 1]]),
      (''a.proto'', [EPackage ''pkg.a'', EMessage ''Foo'' False [] []])]"

definition shadowRun :: "bool \<Rightarrow> pbstate" where
  "shadowRun showMissing =
     (case process 2 (fileEnv shadowFiles showMissing False) NewPbs ''root.proto'' [] of
        Some (Inr r) \<Rightarrow> snd r
      | _ \<Rightarrow> NewPbs)"

definition lateFiles :: "(string \<times> element list) list" where
  "lateFiles =
     [(''a.proto'', [EPackage ''p'', EImport ''b.proto'',
                     EMessage ''Req'' False [] [], EMessage ''Resp'' False [] []]),
      (''b.proto'', [EPackage ''p'',
                     EService (Service ''Svc'' [] [SrvRPC (RPC ''Get'' ''Req'' ''Resp'' False False)])])]"

definition lateRun :: pbstate where
  "lateRun =
     (case process 2 (fileEnv lateFiles False False) NewPbs ''a.proto'' ''Svc.Get'' of
        Some (Inr r) \<Rightarrow> snd r
      | _ \<Rightarrow> NewPbs)"







section \<open>Aliases\<close>

lemma getUniqueName_frame:
  "translate (snd (getUniqueName s a b)) = translate s"
  "types237 (snd (getUniqueName s a b)) = types237 s"
  "log (snd (getUniqueName s a b)) = log s"
  "proto (snd (getUniqueName s a b)) = proto s"
  by (simp_all add: getUniqueName_def Let_def)

text \<open>
  C2.  The claim: requesting an alias for a pair (short name, qualified name)
  repeatedly returns the same alias, and two distinct pairs never receive the same
  alias.  The source looks the short name up in \<^verbatim>\<open>knownNames\<close>, whose keys are
  the aliases it has generated, so the lookup misses the pair it registered a
  moment ago.  From a fresh state the pair (Foo, pkg.Foo) receives \<^verbatim>\<open>Ja_100\<close> and,
  asked again, \<^verbatim>\<open>Ja_101\<close>; and the different pair (Ja_100, pkg.Foo) then receives
  \<^verbatim>\<open>Ja_100\<close>, the alias of (Foo, pkg.Foo).
\<close>

theorem getUniqueName_repeated:
  "fst (getUniqueName NewPbs ''Foo'' ''pkg.Foo'') = ''Ja_100''
   \<and> fst (getUniqueName (snd (getUniqueName NewPbs ''Foo'' ''pkg.Foo'')) ''Foo'' ''pkg.Foo'') = ''Ja_101''
   \<and> fst (getUniqueName (snd (getUniqueName NewPbs ''Foo'' ''pkg.Foo'')) ''Ja_100'' ''pkg.Foo'') = ''Ja_100''"
  by code_simp

section \<open>Duplicate declarations\<close>

text \<open>
  C4, as the claim states it: of two declarations of one qualified name the first
  wins.  It fails: \<open>firstFoo\<close> is the state after \<^verbatim>\<open>pkg.Foo\<close> has been declared
  in \<^verbatim>\<open>b.proto\<close>, \<open>secondFoo\<close> the state after it has been declared again in
  \<^verbatim>\<open>a.proto\<close>, and the registry entry of \<open>secondFoo\<close> is the second entity.
\<close>

theorem first_declaration_overwritten:
  "map_of (types237 firstFoo) ''pkg.Foo'' =
     Some (tinfo0\<lparr>typename := typenameMessage, fullname := ''pkg.Foo'', unique := ''Ja_100'',
             name := ''Foo'', comment := ''pkg'', protopack := ''b.proto''\<rparr>)
   \<and> map_of (types237 secondFoo) ''pkg.Foo'' =
     Some (tinfo0\<lparr>typename := typenameMessage, fullname := ''pkg.Foo'', unique := ''Ja_101'',
             name := ''Foo'', comment := ''pkg'', protopack := ''a.proto''\<rparr>)
   \<and> map_of (types237 secondFoo) ''pkg.Foo'' \<noteq> map_of (types237 firstFoo) ''pkg.Foo''"
  by code_simp

text \<open>
  C4, amended: the last declaration wins.  When a message is declared whose short
  name has been declared before, the registry entry of its qualified name becomes
  the entity of this declaration, whatever the entry was: its alias is the one
  \<^verbatim>\<open>getUniqueName\<close> returns now, its position and file are those of this
  declaration.  The qualified name is appended to the candidates of the short name,
  the collision is written to the log, and the handler has no failing branch.
\<close>

theorem handleMessageDeclaration_overwrites:
  assumes "map_of (translate s) nm = Some fulls"
  shows "map_of (types237 (handleMessageDeclaration s p nm False pos)) (getFullName p nm) =
           Some (tinfo0\<lparr>typename := typenameMessage, fullname := getFullName p nm,
                   unique := fst (getUniqueName s nm (getFullName p nm)), name := nm,
                   filename := pos, comment := getParent p, protopack := proto s\<rparr>)
         \<and> map_of (translate (handleMessageDeclaration s p nm False pos)) nm =
             Some (fulls @ [getFullName p nm])
         \<and> log (handleMessageDeclaration s p nm False pos) =
             log s @ [Debug [''ERROR: there is a collision for name:'', nm]]"
  using assms
  by (simp add: handleMessageDeclaration_def saveMapping_def say_def Let_def split_beta
        getUniqueName_frame AList.update_conv')

theorem handleMessageDeclaration_overwrites_witness:
  "map_of (translate (firstFoo\<lparr>proto := ''a.proto''\<rparr>)) ''Foo'' = Some [''pkg.Foo'']
   \<and> map_of (types237 secondFoo) ''pkg.Foo'' =
     Some (tinfo0\<lparr>typename := typenameMessage, fullname := ''pkg.Foo'', unique := ''Ja_101'',
             name := ''Foo'', comment := ''pkg'', protopack := ''a.proto''\<rparr>)
   \<and> map_of (translate secondFoo) ''Foo'' = Some [''pkg.Foo'', ''pkg.Foo'']
   \<and> log secondFoo = [Debug [''ERROR: there is a collision for name:'', ''Foo'']]"
proof -
  have h: "map_of (translate (firstFoo\<lparr>proto := ''a.proto''\<rparr>)) ''Foo'' = Some [''pkg.Foo'']"
    by code_simp
  have u: "fst (getUniqueName (firstFoo\<lparr>proto := ''a.proto''\<rparr>) ''Foo'' ''pkg.Foo'') = ''Ja_101''"
    by code_simp
  have f: "getFullName (PProto ''a.proto'' [EPackage ''pkg'']) ''Foo'' = ''pkg.Foo''"
    by code_simp
  have l: "log (firstFoo\<lparr>proto := ''a.proto''\<rparr>) = []"
    by code_simp
  show ?thesis
    using handleMessageDeclaration_overwrites [OF h, of "PProto ''a.proto'' [EPackage ''pkg'']" "[]"]
    using h by (simp add: u f l secondFoo_def tinfo0_def)
qed

section \<open>Resolution\<close>

lemma pickByNamespace_none:
  assumes "\<forall>one \<in> set cands. length local + length separator \<le> length one"
    and "filter (\<lambda>one. prefix (namespaceOf local one) full) cands = []"
  shows "pickByNamespace full local cands found = Inr found"
  using assms by (induction cands arbitrary: found) (auto split: if_splits)

lemma pickByNamespace_longest:
  assumes "\<forall>one \<in> set cands. length local + length separator \<le> length one"
  shows "\<exists>r. pickByNamespace full local cands found = Inr r
           \<and> (r = found \<or> (r \<in> set cands \<and> prefix (namespaceOf local r) full))
           \<and> length found \<le> length r
           \<and> (\<forall>one \<in> set cands. prefix (namespaceOf local one) full \<longrightarrow> length one \<le> length r)"
  using assms
proof (induction cands arbitrary: found)
  case Nil
  then show ?case by simp
next
  case (Cons one rest)
  let ?f = "if prefix (namespaceOf local one) full \<and> length one > length found then one else found"
  from Cons.prems have rest: "\<forall>x \<in> set rest. length local + length separator \<le> length x"
    and one: "length local + length separator \<le> length one" by auto
  from Cons.IH [OF rest, of ?f] obtain r where
    r: "pickByNamespace full local rest ?f = Inr r"
      "r = ?f \<or> (r \<in> set rest \<and> prefix (namespaceOf local r) full)"
      "length ?f \<le> length r"
      "\<forall>x \<in> set rest. prefix (namespaceOf local x) full \<longrightarrow> length x \<le> length r"
    by blast
  have "pickByNamespace full local (one # rest) found = Inr r"
    using one r(1) by (simp add: Let_def)
  moreover have "r = found \<or> (r \<in> set (one # rest) \<and> prefix (namespaceOf local r) full)"
    using r(2) by (auto split: if_splits)
  moreover have "length found \<le> length r"
    using r(3) by (auto split: if_splits)
  moreover have "\<forall>x \<in> set (one # rest). prefix (namespaceOf local x) full \<longrightarrow> length x \<le> length r"
    using r(3,4) by (auto split: if_splits)
  ultimately show ?case by blast
qed

lemma getResolution_addResolution:
  "map_of (types237 pbs) found = Some i \<Longrightarrow>
   getResolution (addResolution pbs full local found) full local = Some i"
  by (simp add: getResolution_def addResolution_def Let_def AList.update_conv')

lemma namespaceOf_length:
  "length local + length separator \<le> length one \<Longrightarrow>
   length (namespaceOf local one) = length one - length local - length separator"
  by (simp add: namespaceOf_def)

lemma namespaceOf_append: "namespaceOf local (ns @ separator @ local) = ns"
  by (simp add: namespaceOf_def)

text \<open>
  The branch of \<^verbatim>\<open>resolveType\<close> for a short name with more than one declared
  candidate, in a state where the reference is not resolved yet in its scope: no
  binding is memoized for it and no placeholder of that short name is registered.
  The candidates whose namespace prefix (the qualified name without the short name
  and the dot before it, \<open>ns\<close> for \<open>ns.local\<close>) is a prefix of the scope
  survive, and the reference is bound to a survivor whose namespace prefix is
  longest; the bound entity is what a later lookup in that scope returns.  With
  no survivor nothing is bound and the failure is reported.  The candidates of a
  short name are qualified names that end with a dot and the short name, so each is
  longer than the short name.
\<close>

lemma resolveType_longest_namespace:
  assumes "\<not> isSimpleType E local"
    and "getResolution pbs full local = None"
    and "map_of (translate pbs) local = Some cands"
    and "length cands > 1"
    and "\<forall>one \<in> set cands. length local + length separator \<le> length one"
  shows "if filter (\<lambda>one. prefix (namespaceOf local one) full) cands = []
         then resolveType E pbs full local =
                Inr (say (Alert [''!! there is more than one definition of type ['', local,
                                 ''], used in '', full]) pbs)
         else \<exists>found \<in> set cands.
                prefix (namespaceOf local found) full
                \<and> (\<forall>one \<in> set cands. prefix (namespaceOf local one) full \<longrightarrow>
                      length (namespaceOf local one) \<le> length (namespaceOf local found))
                \<and> resolveType E pbs full local = Inr (addResolution pbs full local found)
                \<and> (\<forall>i. map_of (types237 pbs) found = Some i \<longrightarrow>
                      getResolution (addResolution pbs full local found) full local = Some i)"
proof (cases "filter (\<lambda>one. prefix (namespaceOf local one) full) cands = []")
  case True
  have "pickByNamespace full local cands [] = Inr []"
    using assms(5) True by (rule pickByNamespace_none)
  then show ?thesis
    using True assms(1-4) by (simp add: resolveType_def)
next
  case False
  then obtain s where s: "s \<in> set cands" "prefix (namespaceOf local s) full"
    by (auto simp: filter_empty_conv)
  from pickByNamespace_longest [OF assms(5), of full "[]"] obtain r where
    r: "pickByNamespace full local cands [] = Inr r"
      "r = [] \<or> (r \<in> set cands \<and> prefix (namespaceOf local r) full)"
      "\<forall>one \<in> set cands. prefix (namespaceOf local one) full \<longrightarrow> length one \<le> length r"
    by blast
  from s assms(5) have "length s > 0" by auto
  with r(3) s have nonempty: "length r > 0" by fastforce
  with r(2) have mem: "r \<in> set cands" "prefix (namespaceOf local r) full" by auto
  have longest: "\<forall>one \<in> set cands. prefix (namespaceOf local one) full \<longrightarrow>
      length (namespaceOf local one) \<le> length (namespaceOf local r)"
  proof (intro ballI impI)
    fix one assume o: "one \<in> set cands" "prefix (namespaceOf local one) full"
    with r(3) have "length one \<le> length r" by blast
    moreover have "length (namespaceOf local one) = length one - length local - length separator"
      using assms(5) o(1) by (simp add: namespaceOf_length)
    moreover have "length (namespaceOf local r) = length r - length local - length separator"
      using assms(5) mem(1) by (simp add: namespaceOf_length)
    ultimately show "length (namespaceOf local one) \<le> length (namespaceOf local r)" by simp
  qed
  have res: "resolveType E pbs full local = Inr (addResolution pbs full local r)"
    using assms(1-4) r(1) nonempty by (simp add: resolveType_def)
  have "\<forall>i. map_of (types237 pbs) r = Some i \<longrightarrow>
      getResolution (addResolution pbs full local r) full local = Some i"
    by (simp add: getResolution_addResolution)
  with mem longest res False show ?thesis by auto
qed

text \<open>
  C5.  The claim: a bare reference with several declared candidates is bound to
  the candidate whose namespace prefix is the longest one that is a prefix of the
  scope, so that \<^verbatim>\<open>Foo\<close> from the scope \<^verbatim>\<open>pkg.a.b.Handler\<close> with the candidates
  \<^verbatim>\<open>pkg.a.Foo\<close> and \<^verbatim>\<open>pkg.a.b.Foo\<close> is bound to \<^verbatim>\<open>pkg.a.b.Foo\<close>.  The branch
  of \<^verbatim>\<open>resolveType\<close> above does that, but \<^verbatim>\<open>resolveType\<close> asks
  \<^verbatim>\<open>getResolution\<close> first, and \<^verbatim>\<open>getResolution\<close> falls back to any entity of
  type \<^verbatim>\<open>missing\<close> with that short name, whoever owns it.  \<open>shadowRun True\<close> is
  the run with missing-types mode on over \<open>shadowFiles\<close>: the placeholder made
  for the field of \<^verbatim>\<open>other.M\<close>, at a moment when no \<^verbatim>\<open>Foo\<close> was declared,
  answers the lookup for \<^verbatim>\<open>pkg.a.b.Handler\<close>.  Both candidates are declared,
  nothing is bound, \<^verbatim>\<open>resolveType\<close> leaves the state as it is, and the edge of
  the field \<^verbatim>\<open>x\<close> of the handler goes to the placeholder \<^verbatim>\<open>Ja_101\<close> and not to
  \<^verbatim>\<open>pkg.a.b.Foo\<close>, which is \<^verbatim>\<open>Ja_103\<close>.  With the mode off the same files bind
  the reference to \<^verbatim>\<open>pkg.a.b.Foo\<close>.
\<close>

theorem placeholder_shadows_candidates:
  "map (\<lambda>kv. (fst kv, unique (snd kv), typename (snd kv))) (types237 (shadowRun True)) =
     [(''other.M'', ''Ja_100'', typenameMessage),
      (''missing.Ja_100.Foo'', ''Ja_101'', typenameMissing),
      (''pkg.a.Foo'', ''Ja_102'', typenameMessage),
      (''pkg.a.b.Foo'', ''Ja_103'', typenameMessage),
      (''pkg.a.b.Handler'', ''Ja_104'', typenameMessage)]
   \<and> map_of (translate (shadowRun True)) ''Foo'' = Some [''pkg.a.Foo'', ''pkg.a.b.Foo'']
   \<and> resolutions (shadowRun True) = []
   \<and> inclusions (shadowRun True) =
       [(''Ja_100:f'', [(''Ja_101'', 1)]), (''Ja_104:x'', [(''Ja_101'', 1)])]
   \<and> resolveType (fileEnv shadowFiles True False) (shadowRun True) ''pkg.a.b.Handler'' ''Foo'' =
       Inr (shadowRun True)
   \<and> resolutions (shadowRun False) = [(''pkg.a.b.Handler'', [(''Foo'', ''pkg.a.b.Foo'')])]
   \<and> inclusions (shadowRun False) = [(''Ja_103:x'', [(''Ja_102'', 1)])]"
  by code_simp

lemma split_on_nonempty: "split_on c s \<noteq> []"
  by (induction s) (auto split: list.splits)

lemma split_on_dotted: "length (split_on c s) > 1 \<longleftrightarrow> c \<in> set s"
proof (induction s)
  case Nil
  then show ?case by simp
next
  case (Cons x xs)
  show ?case
  proof (cases "x = c")
    case True
    then show ?thesis using split_on_nonempty [of c xs] by (simp add: Suc_lessI)
  next
    case False
    then show ?thesis using Cons split_on_nonempty [of c xs]
      by (cases "split_on c xs") auto
  qed
qed

lemma pickBySuffix_cases:
  "pickBySuffix full local tns found = found
   \<or> (pickBySuffix full local tns found \<in> set tns
      \<and> suffix local (pickBySuffix full local tns found)
      \<and> prefix (qualifierOf local (pickBySuffix full local tns found)) full)"
proof (induction tns arbitrary: found)
  case Nil
  then show ?case by simp
next
  case (Cons tn rest)
  let ?f = "if suffix local tn then
              (if prefix (qualifierOf local tn) full \<and> length tn > length found then tn else found)
            else found"
  from Cons.IH [of ?f] show ?case
    by (auto split: if_splits)
qed

lemma say_frame [simp]:
  "types237 (say d pbs) = types237 pbs"
  "resolutions (say d pbs) = resolutions pbs"
  "inclusions (say d pbs) = inclusions pbs"
  "proto (say d pbs) = proto pbs"
  "counter (say d pbs) = counter pbs"
  "knownNames (say d pbs) = knownNames pbs"
  by (simp_all add: say_def)

lemma missingByName_say [simp]: "missingByName (say d pbs) = missingByName pbs"
  by (simp add: missingByName_def fun_eq_iff)

lemma getResolution_say [simp]: "getResolution (say d pbs) = getResolution pbs"
  by (auto simp: getResolution_def fun_eq_iff split: option.splits)

lemma qualifierOf_append:
  "qualifierOf local (q @ local) = (if suffix separator q then butlast q else q)"
  by (simp add: qualifierOf_def Let_def butlast_conv_take)

lemma pickBySuffix_longest:
  "(pickBySuffix full local tns found = found
      \<or> (pickBySuffix full local tns found \<in> set tns
          \<and> suffix local (pickBySuffix full local tns found)
          \<and> prefix (qualifierOf local (pickBySuffix full local tns found)) full))
   \<and> length found \<le> length (pickBySuffix full local tns found)
   \<and> (\<forall>tn \<in> set tns. suffix local tn \<and> prefix (qualifierOf local tn) full \<longrightarrow>
          length tn \<le> length (pickBySuffix full local tns found))"
proof (induction tns arbitrary: found)
  case Nil
  then show ?case by simp
next
  case (Cons tn rest)
  let ?f = "if suffix local tn then
              (if prefix (qualifierOf local tn) full \<and> length tn > length found then tn else found)
            else found"
  have step: "pickBySuffix full local (tn # rest) found = pickBySuffix full local rest ?f"
    by simp
  from Cons.IH [of ?f] show ?case
    unfolding step by (auto split: if_splits)
qed

text \<open>
  C6, amended.  In a scope where the reference is not resolved yet (no binding is
  memoized for it and no placeholder of that name is registered): a bare
  reference with exactly one declared candidate of that short name is bound to
  this candidate, whatever the scope is, and the binding is what a later lookup
  returns.  A dot-qualified reference (whose own text has at most one candidate)
  is looked up among the registered qualified names \<open>q @ local\<close> that end with
  the reference and whose remaining prefix \<open>q\<close>, less its trailing dot, is a
  prefix of the scope.  When there is such a name the reference is bound to a
  longest one, and a later lookup returns the registered entity of that name;
  when there is none nothing is bound and the failure is reported.  The last
  dot-component of the reference is not looked at.
\<close>

theorem resolveType_single_candidate:
  assumes "\<not> isSimpleType E local"
    and "getResolution pbs full local = None"
  shows "(CHR ''.'' \<notin> set local \<and> map_of (translate pbs) local = Some [one] \<longrightarrow>
           resolveType E pbs full local = Inr (addResolution pbs full local one)
           \<and> (\<forall>i. map_of (types237 pbs) one = Some i \<longrightarrow>
                 getResolution (addResolution pbs full local one) full local = Some i))
         \<and> (CHR ''.'' \<in> set local
             \<and> length (case map_of (translate pbs) local of Some fulls \<Rightarrow> fulls | None \<Rightarrow> []) \<le> 1 \<longrightarrow>
            (if \<exists>q. q @ local \<in> fst ` set (types237 pbs)
                     \<and> prefix (if suffix separator q then butlast q else q) full
             then \<exists>q. (q @ local \<in> fst ` set (types237 pbs)
                      \<and> prefix (if suffix separator q then butlast q else q) full)
                     \<and> (\<forall>q'. q' @ local \<in> fst ` set (types237 pbs)
                              \<and> prefix (if suffix separator q' then butlast q' else q') full \<longrightarrow>
                            length q' \<le> length q)
                     \<and> resolveType E pbs full local = Inr (addResolution pbs full local (q @ local))
                     \<and> getResolution (addResolution pbs full local (q @ local)) full local =
                         map_of (types237 pbs) (q @ local)
                     \<and> map_of (types237 pbs) (q @ local) \<noteq> None
             else resolveType E pbs full local =
                    Inr (say (Alert [''!! failed to find full.type.name for type ['', local,
                                     ''], used in '', full]) pbs)
                  \<and> getResolution (say (Alert [''!! failed to find full.type.name for type ['', local,
                                     ''], used in '', full]) pbs) full local = None))"
proof (intro conjI impI)
  assume a: "CHR ''.'' \<notin> set local \<and> map_of (translate pbs) local = Some [one]"
  then have "\<not> length (split_on CHR ''.'' local) > 1"
    using split_on_dotted [of "CHR ''.''" local] by blast
  with a assms show "resolveType E pbs full local = Inr (addResolution pbs full local one)"
    by (simp add: resolveType_def)
  show "\<forall>i. map_of (types237 pbs) one = Some i \<longrightarrow>
          getResolution (addResolution pbs full local one) full local = Some i"
    by (simp add: getResolution_addResolution)
next
  assume a: "CHR ''.'' \<in> set local
             \<and> length (case map_of (translate pbs) local of Some fulls \<Rightarrow> fulls | None \<Rightarrow> []) \<le> 1"
  let ?keys = "map fst (types237 pbs)"
  let ?found = "pickBySuffix full local ?keys []"
  let ?alert = "say (Alert [''!! failed to find full.type.name for type ['', local,
                             ''], used in '', full]) pbs"
  let ?S = "\<lambda>q. q @ local \<in> fst ` set (types237 pbs)
                 \<and> prefix (if suffix separator q then butlast q else q) full"
  from a have dotted: "length (split_on CHR ''.'' local) > 1"
    using split_on_dotted [of "CHR ''.''" local] by blast
  from a have few: "\<not> length (case map_of (translate pbs) local of Some fulls \<Rightarrow> fulls | None \<Rightarrow> []) > 1"
    by simp
  from a have ne: "local \<noteq> []" by auto
  note L = pickBySuffix_longest [of full local ?keys "[]"]
  have surv: "?S q \<longleftrightarrow> (q @ local \<in> set ?keys \<and> suffix local (q @ local)
                            \<and> prefix (qualifierOf local (q @ local)) full)" for q
    by (auto simp: qualifierOf_append suffix_def)
  show "if \<exists>q. ?S q
        then \<exists>q. ?S q \<and> (\<forall>q'. ?S q' \<longrightarrow> length q' \<le> length q)
                \<and> resolveType E pbs full local = Inr (addResolution pbs full local (q @ local))
                \<and> getResolution (addResolution pbs full local (q @ local)) full local =
                    map_of (types237 pbs) (q @ local)
                \<and> map_of (types237 pbs) (q @ local) \<noteq> None
        else resolveType E pbs full local = Inr ?alert \<and> getResolution ?alert full local = None"
  proof (cases "\<exists>q. ?S q")
    case True
    then obtain q0 where q0: "?S q0" by blast
    with L surv [of q0] have "length (q0 @ local) \<le> length ?found" by blast
    with ne have nonempty: "?found \<noteq> []" by auto
    with L have mem: "?found \<in> set ?keys" and suf: "suffix local ?found"
      and pre: "prefix (qualifierOf local ?found) full"
      by auto
    from suf obtain q where q: "?found = q @ local" by (auto simp: suffix_def)
    have Sq: "?S q" using mem pre unfolding q by (simp add: qualifierOf_append)
    have longest: "\<forall>q'. ?S q' \<longrightarrow> length q' \<le> length q"
    proof (intro allI impI)
      fix q' assume "?S q'"
      with L surv [of q'] have "length (q' @ local) \<le> length ?found" by blast
      then show "length q' \<le> length q" unfolding q by simp
    qed
    have res: "resolveType E pbs full local = Inr (addResolution pbs full local (q @ local))"
      using assms dotted few nonempty q by (simp add: resolveType_def Let_def)
    from mem q obtain i where i: "map_of (types237 pbs) (q @ local) = Some i"
      by (metis map_of_eq_None_iff not_Some_eq set_map)
    have memo: "getResolution (addResolution pbs full local (q @ local)) full local =
                  map_of (types237 pbs) (q @ local)"
      using getResolution_addResolution [OF i] i by simp
    have inn: "map_of (types237 pbs) (q @ local) \<noteq> None" using i by simp
    from Sq longest res memo inn
    have "\<exists>q. ?S q \<and> (\<forall>q'. ?S q' \<longrightarrow> length q' \<le> length q)
                \<and> resolveType E pbs full local = Inr (addResolution pbs full local (q @ local))
                \<and> getResolution (addResolution pbs full local (q @ local)) full local =
                    map_of (types237 pbs) (q @ local)
                \<and> map_of (types237 pbs) (q @ local) \<noteq> None"
      by blast
    then show ?thesis unfolding if_P [OF True] .
  next
    case False
    have "?found = []"
    proof (rule ccontr)
      assume n: "?found \<noteq> []"
      with L have mem: "?found \<in> set ?keys" and suf: "suffix local ?found"
        and pre: "prefix (qualifierOf local ?found) full"
        by auto
      from suf obtain q where q: "?found = q @ local" by (auto simp: suffix_def)
      have "?S q" using mem pre unfolding q by (simp add: qualifierOf_append)
      with False show False by blast
    qed
    then have "resolveType E pbs full local = Inr ?alert"
      using assms dotted few by (simp add: resolveType_def Let_def)
    with assms(2) have "resolveType E pbs full local = Inr ?alert \<and> getResolution ?alert full local = None"
      by simp
    then show ?thesis unfolding if_not_P [OF False] .
  qed
qed


text \<open>
  C6, as the claim states it, fails for a dot-qualified reference.  \<open>barState\<close>
  declares the one message \<^verbatim>\<open>x.b.Bar\<close>, so exactly one entity has the short name
  \<^verbatim>\<open>Bar\<close>; the reference \<^verbatim>\<open>b.Bar\<close> from the scope \<^verbatim>\<open>a.Foo\<close> is not bound to it,
  because the rest \<^verbatim>\<open>x\<close> of the qualified name is not a prefix of the scope.
\<close>

theorem dotted_reference_unresolved:
  "map_of (translate barState) ''Bar'' = Some [''x.b.Bar'']
   \<and> map fst (types237 barState) = [''x.b.Bar'']
   \<and> \<not> isSimpleType (fileEnv [] False False) ''b.Bar''
   \<and> getResolution barState ''a.Foo'' ''b.Bar'' = None
   \<and> resolveType (fileEnv [] False False) barState ''a.Foo'' ''b.Bar'' =
       Inr (say (Alert [''!! failed to find full.type.name for type ['', ''b.Bar'',
                        ''], used in '', ''a.Foo'']) barState)
   \<and> resolutions (say (Alert [''!! failed to find full.type.name for type ['', ''b.Bar'',
                        ''], used in '', ''a.Foo'']) barState) = []"
  by code_simp

theorem resolveType_single_candidate_witness:
  "\<not> isSimpleType (fileEnv [] False False) ''Bar''
   \<and> getResolution barState ''a.Foo'' ''Bar'' = None
   \<and> map_of (translate barState) ''Bar'' = Some [''x.b.Bar'']
   \<and> CHR ''.'' \<notin> set ''Bar''
   \<and> resolveType (fileEnv [] False False) barState ''a.Foo'' ''Bar'' =
       Inr (addResolution barState ''a.Foo'' ''Bar'' ''x.b.Bar'')
   \<and> getResolution (addResolution barState ''a.Foo'' ''Bar'' ''x.b.Bar'') ''a.Foo'' ''Bar'' =
       Some (tinfo0\<lparr>typename := typenameMessage, fullname := ''x.b.Bar'', unique := ''Ja_100'',
               name := ''Bar'', comment := ''x.b''\<rparr>)
   \<and> \<not> isSimpleType (fileEnv [] False False) ''b.Bar''
   \<and> getResolution barState ''x.Foo'' ''b.Bar'' = None
   \<and> CHR ''.'' \<in> set ''b.Bar''
   \<and> map_of (translate barState) ''b.Bar'' = None
   \<and> fst ` set (types237 barState) = {''x.'' @ ''b.Bar''}
   \<and> prefix (butlast ''x.'') ''x.Foo''
   \<and> resolveType (fileEnv [] False False) barState ''x.Foo'' ''b.Bar'' =
       Inr (addResolution barState ''x.Foo'' ''b.Bar'' ''x.b.Bar'')
   \<and> getResolution (addResolution barState ''x.Foo'' ''b.Bar'' ''x.b.Bar'') ''x.Foo'' ''b.Bar'' =
       Some (tinfo0\<lparr>typename := typenameMessage, fullname := ''x.b.Bar'', unique := ''Ja_100'',
               name := ''Bar'', comment := ''x.b''\<rparr>)
   \<and> getResolution barState ''a.Foo'' ''b.Bar'' = None
   \<and> \<not> prefix (butlast ''x.'') ''a.Foo''
   \<and> resolveType (fileEnv [] False False) barState ''a.Foo'' ''b.Bar'' =
       Inr (say (Alert [''!! failed to find full.type.name for type ['', ''b.Bar'',
                        ''], used in '', ''a.Foo'']) barState)"
proof -
  let ?E = "fileEnv [] False False"
  let ?bar = "tinfo0\<lparr>typename := typenameMessage, fullname := ''x.b.Bar'', unique := ''Ja_100'',
               name := ''Bar'', comment := ''x.b''\<rparr>"
  have a1: "\<not> isSimpleType ?E ''Bar''" by code_simp
  have a2: "getResolution barState ''a.Foo'' ''Bar'' = None" by code_simp
  have a3: "map_of (translate barState) ''Bar'' = Some [''x.b.Bar'']" by code_simp
  have a4: "CHR ''.'' \<notin> set ''Bar''" by simp
  have ty: "map_of (types237 barState) ''x.b.Bar'' = Some ?bar" by code_simp
  have b1: "\<not> isSimpleType ?E ''b.Bar''" by code_simp
  have b2: "getResolution barState ''x.Foo'' ''b.Bar'' = None" by code_simp
  have b3: "CHR ''.'' \<in> set ''b.Bar''" by simp
  have b4: "map_of (translate barState) ''b.Bar'' = None" by code_simp
  have c2: "getResolution barState ''a.Foo'' ''b.Bar'' = None" by code_simp
  have kl: "map fst (types237 barState) = [''x.b.Bar'']" by code_simp
  have keys: "fst ` set (types237 barState) = {''x.b.Bar''}"
    unfolding set_map [symmetric] kl by simp
  have pre: "CHR ''.'' \<in> set ''b.Bar''
      \<and> length (case map_of (translate barState) ''b.Bar'' of Some fulls \<Rightarrow> fulls | None \<Rightarrow> []) \<le> 1"
    using b4 by simp
  have only: "q @ ''b.Bar'' \<in> fst ` set (types237 barState) \<longleftrightarrow> q = ''x.''" for q :: string
  proof -
    have "q @ ''b.Bar'' = ''x.'' @ ''b.Bar'' \<longleftrightarrow> q = ''x.''" by (rule append_same_eq)
    then show ?thesis unfolding keys by simp
  qed
  from resolveType_single_candidate [OF a1 a2, of "''x.b.Bar''"] a3 a4 ty
  have A: "resolveType ?E barState ''a.Foo'' ''Bar'' = Inr (addResolution barState ''a.Foo'' ''Bar'' ''x.b.Bar'')
     \<and> getResolution (addResolution barState ''a.Foo'' ''Bar'' ''x.b.Bar'') ''a.Foo'' ''Bar'' = Some ?bar"
    by simp
  have ex: "\<exists>q. q @ ''b.Bar'' \<in> fst ` set (types237 barState)
               \<and> prefix (if suffix separator q then butlast q else q) ''x.Foo''"
    by (rule exI [of _ "''x.''"]) (simp add: keys)
  from resolveType_single_candidate [OF b1 b2, of "[]", THEN conjunct2, rule_format, OF pre]
  obtain q where q: "q @ ''b.Bar'' \<in> fst ` set (types237 barState)"
    and r: "resolveType ?E barState ''x.Foo'' ''b.Bar'' =
              Inr (addResolution barState ''x.Foo'' ''b.Bar'' (q @ ''b.Bar''))"
    and g: "getResolution (addResolution barState ''x.Foo'' ''b.Bar'' (q @ ''b.Bar'')) ''x.Foo'' ''b.Bar'' =
              map_of (types237 barState) (q @ ''b.Bar'')"
    unfolding if_P [OF ex] by (elim exE conjE) (rule that, assumption+)
  from q have qe: "q = ''x.''" by (simp only: only)
  from r g ty have B: "resolveType ?E barState ''x.Foo'' ''b.Bar'' =
              Inr (addResolution barState ''x.Foo'' ''b.Bar'' ''x.b.Bar'')
     \<and> getResolution (addResolution barState ''x.Foo'' ''b.Bar'' ''x.b.Bar'') ''x.Foo'' ''b.Bar'' = Some ?bar"
    unfolding qe by simp
  have nex: "\<not> (\<exists>q. q @ ''b.Bar'' \<in> fst ` set (types237 barState)
               \<and> prefix (if suffix separator q then butlast q else q) ''a.Foo'')"
    by (simp add: only)
  from resolveType_single_candidate [OF b1 c2, of "[]", THEN conjunct2, rule_format, OF pre]
  have C: "resolveType ?E barState ''a.Foo'' ''b.Bar'' =
       Inr (say (Alert [''!! failed to find full.type.name for type ['', ''b.Bar'',
                        ''], used in '', ''a.Foo'']) barState)"
    unfolding if_not_P [OF nex] by (rule conjunct1)
  have k2: "fst ` set (types237 barState) = {''x.'' @ ''b.Bar''}" using keys by simp
  have p1: "prefix (butlast ''x.'') ''x.Foo''" by simp
  have p2: "\<not> prefix (butlast ''x.'') ''a.Foo''" by simp
  from a1 a2 a3 a4 A b1 b2 b3 b4 k2 p1 B c2 p2 C show ?thesis by simp
qed

section \<open>Missing types\<close>

text \<open>
  C3.  The claim: with missing-types mode on there is one placeholder for each
  distinct pair of an owner and a missing short name, reused by the references of
  that owner and never by another owner.  \<^verbatim>\<open>recordMissingType\<close> keeps the
  placeholders under the key \<^verbatim>\<open>missing.<owner alias>.<short name>\<close>, and called
  for the owners \<^verbatim>\<open>Ja_100\<close> and \<^verbatim>\<open>Ja_101\<close> it registers two of them.  In a run
  it is not called for the second owner: the bodies ask \<^verbatim>\<open>getResolution\<close> first,
  and \<^verbatim>\<open>getResolution\<close> falls back to any entity of type \<^verbatim>\<open>missing\<close> with that
  short name, whoever owns it.  \<open>twoOwnersRun True\<close> is the state after the run,
  with missing-types mode on, over a file with the messages \<^verbatim>\<open>A\<close> and \<^verbatim>\<open>B\<close>,
  each with one field of the undeclared type \<^verbatim>\<open>Bar\<close>: there is one placeholder,
  that of \<^verbatim>\<open>A\<close>, and the edge of \<^verbatim>\<open>B\<close> goes to it.
\<close>

theorem placeholder_shared_between_owners:
  "map (\<lambda>kv. (fst kv, unique (snd kv), typename (snd kv))) (types237 (twoOwnersRun True)) =
     [(''p.A'', ''Ja_100'', typenameMessage), (''p.B'', ''Ja_101'', typenameMessage),
      (''missing.Ja_100.Bar'', ''Ja_102'', typenameMissing)]
   \<and> inclusions (twoOwnersRun True) =
     [(''Ja_100:x'', [(''Ja_102'', 1)]), (''Ja_101:y'', [(''Ja_102'', 1)])]
   \<and> map_of (types237 (twoOwnersRun True)) ''missing.Ja_101.Bar'' = None
   \<and> fst (recordMissingType (fileEnv [] True False) abState ''Ja_100'' ''Bar'') = ''Ja_102''
   \<and> fst (recordMissingType (fileEnv [] True False)
            (snd (recordMissingType (fileEnv [] True False) abState ''Ja_100'' ''Bar''))
            ''Ja_101'' ''Bar'') = ''Ja_103''
   \<and> map fst (types237 (snd (recordMissingType (fileEnv [] True False)
            (snd (recordMissingType (fileEnv [] True False) abState ''Ja_100'' ''Bar''))
            ''Ja_101'' ''Bar''))) =
       [''p.A'', ''p.B'', ''missing.Ja_100.Bar'', ''missing.Ja_101.Bar'']"
  by code_simp

lemma update_absent: "map_of al k = None \<Longrightarrow> AList.update k v al = al @ [(k, v)]"
  by (induction al) (auto split: if_splits)

lemma find_append_last:
  "find P xs = None \<Longrightarrow> P x \<Longrightarrow> find P (xs @ [x]) = Some x"
  by (induction xs) (auto split: if_splits)

lemma getResolution_None_missing:
  "getResolution pbs scope ty = None \<Longrightarrow> missingByName pbs ty = None"
  by (auto simp: getResolution_def split: option.splits)

lemma getUniqueName_types237 [simp]:
  "types237 (snd (getUniqueName pbs a b)) = types237 pbs"
  "resolutions (snd (getUniqueName pbs a b)) = resolutions pbs"
  "inclusions (snd (getUniqueName pbs a b)) = inclusions pbs"
  "proto (snd (getUniqueName pbs a b)) = proto pbs"
  by (simp_all add: getUniqueName_def Let_def)

lemma recordMissingType_new:
  assumes "map_of (types237 pbs) (''missing.'' @ owner @ ''.'' @ ty) = None"
  shows "fst (recordMissingType E pbs owner ty) = unique (placeholder E pbs owner ty)"
    and "types237 (snd (recordMissingType E pbs owner ty)) =
           types237 pbs @ [(''missing.'' @ owner @ ''.'' @ ty, placeholder E pbs owner ty)]"
    and "resolutions (snd (recordMissingType E pbs owner ty)) = resolutions pbs"
    and "inclusions (snd (recordMissingType E pbs owner ty)) = inclusions pbs"
  using assms
  by (simp_all add: recordMissingType_def placeholder_def Let_def split_beta update_absent)

lemma recordInclusion_frame [simp]:
  "types237 (recordInclusion pbs a f t) = types237 pbs"
  "resolutions (recordInclusion pbs a f t) = resolutions pbs"
  by (simp_all add: recordInclusion_def Let_def)

lemma recordInclusion_edge:
  "\<exists>tgts c. map_of (inclusions (recordInclusion pbs a f t)) (inclusionKey a f) = Some tgts
     \<and> map_of tgts t = Some c"
  by (simp add: recordInclusion_def Let_def AList.update_conv')

lemma getUniqueName_say [simp]: "fst (getUniqueName (say d pbs) a b) = fst (getUniqueName pbs a b)"
  by (simp add: getUniqueName_def Let_def)

lemma placeholder_say [simp]: "placeholder E (say d pbs) = placeholder E pbs"
  by (simp add: placeholder_def fun_eq_iff)

text \<open>
  How the placeholder of one owner comes to stand for every owner.  A reference
  that is unresolved in its scope, at a moment when nothing is registered under
  \<^verbatim>\<open>missing.<owner alias>.<short name>\<close>, produces with missing-types mode on the
  placeholder entity under that key and an edge from the owner's field to the
  placeholder's alias.  From then on the short name resolves to this placeholder
  in every scope where it was unresolved, so a later reference from the same or
  from any other owner adds an edge to it and never reaches
  \<^verbatim>\<open>recordMissingType\<close>.  With the mode off \<^verbatim>\<open>includeReference\<close> registers
  nothing and records no edge.
\<close>

lemma includeReference_placeholder:
  assumes unres: "getResolution pbs full ty = None"
    and fresh: "map_of (types237 pbs) (''missing.'' @ owner @ ''.'' @ ty) = None"
  shows "(show_missing_types E \<longrightarrow>
            map_of (types237 (includeReference E pbs full owner field ty msg))
                (''missing.'' @ owner @ ''.'' @ ty) = Some (placeholder E pbs owner ty)
            \<and> (\<exists>tgts c. map_of (inclusions (includeReference E pbs full owner field ty msg))
                            (inclusionKey owner field) = Some tgts
                        \<and> map_of tgts (unique (placeholder E pbs owner ty)) = Some c)
            \<and> (\<forall>scope2 owner2 field2 msg2.
                  getResolution pbs scope2 ty = None \<longrightarrow>
                  getResolution (includeReference E pbs full owner field ty msg) scope2 ty =
                    Some (placeholder E pbs owner ty)
                  \<and> includeReference E (includeReference E pbs full owner field ty msg)
                      scope2 owner2 field2 ty msg2 =
                    recordInclusion (includeReference E pbs full owner field ty msg)
                      owner2 field2 (unique (placeholder E pbs owner ty))))
         \<and> (\<not> show_missing_types E \<longrightarrow>
              includeReference E pbs full owner field ty msg = say (Alert msg) pbs
              \<and> (\<not> isSimpleType E ty \<longrightarrow>
                    getKind E (say (Alert msg) pbs) full ty =
                      (Unknown, say (Assert [''Unresolved type: '', ty, ''; source: '', full])
                                  (say (Alert msg) pbs))))"
proof (intro conjI impI)
  assume off: "\<not> show_missing_types E"
  with unres show "includeReference E pbs full owner field ty msg = say (Alert msg) pbs"
    by (simp add: includeReference_def recordMissingInclusion_def)
next
  assume "\<not> isSimpleType E ty"
  with unres show "getKind E (say (Alert msg) pbs) full ty =
      (Unknown, say (Assert [''Unresolved type: '', ty, ''; source: '', full]) (say (Alert msg) pbs))"
    by (simp add: getKind_def)
next
  assume on: "show_missing_types E"
  let ?key = "''missing.'' @ owner @ ''.'' @ ty"
  let ?ph = "placeholder E pbs owner ty"
  let ?s = "includeReference E pbs full owner field ty msg"
  have fresh': "map_of (types237 (say (Alert msg) pbs)) ?key = None"
    using fresh by simp
  have s: "?s = recordInclusion (snd (recordMissingType E (say (Alert msg) pbs) owner ty))
                  owner field (unique ?ph)"
    using unres on recordMissingType_new(1) [OF fresh', of E]
    by (simp add: includeReference_def recordMissingInclusion_def split_beta)
  have ty: "types237 ?s = types237 pbs @ [(?key, ?ph)]"
    unfolding s using recordMissingType_new(2) [OF fresh', of E] by simp
  have res: "resolutions ?s = resolutions pbs"
    unfolding s using recordMissingType_new(3) [OF fresh', of E] by simp
  show "map_of (types237 ?s) ?key = Some ?ph"
    using fresh by (simp add: ty map_add_def)
  show "\<exists>tgts c. map_of (inclusions ?s) (inclusionKey owner field) = Some tgts
           \<and> map_of tgts (unique ?ph) = Some c"
    unfolding s by (rule recordInclusion_edge)
  have isph: "typename ?ph = typenameMissing \<and> name ?ph = ty"
    by (simp add: placeholder_def Let_def)
  have mb: "missingByName ?s ty = Some ?ph"
    using getResolution_None_missing [OF unres] isph
    by (simp add: missingByName_def ty find_append_last)
  show "\<forall>scope2 owner2 field2 msg2.
          getResolution pbs scope2 ty = None \<longrightarrow>
          getResolution ?s scope2 ty = Some ?ph
          \<and> includeReference E ?s scope2 owner2 field2 ty msg2 =
              recordInclusion ?s owner2 field2 (unique ?ph)"
  proof (intro allI impI)
    fix scope2 owner2 field2 msg2
    assume u2: "getResolution pbs scope2 ty = None"
    have g: "getResolution ?s scope2 ty = Some ?ph"
      using u2 mb fresh
      by (auto simp: getResolution_def res ty map_add_def split: option.splits if_splits)
    then show "getResolution ?s scope2 ty = Some ?ph
        \<and> includeReference E ?s scope2 owner2 field2 ty msg2 =
            recordInclusion ?s owner2 field2 (unique ?ph)"
      by (simp add: includeReference_def)
  qed
qed

section \<open>Imports\<close>

text \<open>
  C10.  When the handler of an import returns, the current file and the current
  package of the state are those it was called with, whether the imported file
  was processed, had been visited before, or was recorded as missing.
\<close>

theorem handleImport_restores_context:
  assumes "handleImport (process n E) pbs f = Some (Inr pbs')"
  shows "proto pbs' = proto pbs \<and> pkg pbs' = pkg pbs"
  using assms
  by (auto simp: handleImport_def Let_def split: if_splits option.splits sum.splits)

theorem handleImport_restores_context_witness:
  "handleImport (process 2 (fileEnv importerFiles False True)) importing ''b.proto'' =
     Some (Inr (afterImport ''b.proto''))
   \<and> map (\<lambda>kv. (fst kv, packageName (snd kv), missing (snd kv))) (knownFiles (afterImport ''b.proto'')) =
       [(''a.proto'', [], False), (''b.proto'', ''pb'', False)]
   \<and> proto (afterImport ''b.proto'') = ''a.proto'' \<and> pkg (afterImport ''b.proto'') = ''pa''
   \<and> handleImport (process 2 (fileEnv importerFiles False True)) importing ''c.proto'' =
     Some (Inr (afterImport ''c.proto''))
   \<and> map (\<lambda>kv. (fst kv, packageName (snd kv), missing (snd kv))) (knownFiles (afterImport ''c.proto'')) =
       [(''a.proto'', [], False), (''c.proto'', [], True)]
   \<and> proto (afterImport ''c.proto'') = ''a.proto'' \<and> pkg (afterImport ''c.proto'') = ''pa''"
proof -
  let ?rec = "process 2 (fileEnv importerFiles False True)"
  have b: "handleImport ?rec importing ''b.proto'' = Some (Inr (afterImport ''b.proto''))"
    by code_simp
  have c: "handleImport ?rec importing ''c.proto'' = Some (Inr (afterImport ''c.proto''))"
    by code_simp
  have kb: "map (\<lambda>kv. (fst kv, packageName (snd kv), missing (snd kv))) (knownFiles (afterImport ''b.proto'')) =
       [(''a.proto'', [], False), (''b.proto'', ''pb'', False)]"
    by code_simp
  have kc: "map (\<lambda>kv. (fst kv, packageName (snd kv), missing (snd kv))) (knownFiles (afterImport ''c.proto'')) =
       [(''a.proto'', [], False), (''c.proto'', [], True)]"
    by code_simp
  have ctx: "proto importing = ''a.proto''" "pkg importing = ''pa''"
    by (simp_all add: importing_def)
  from handleImport_restores_context [OF b] handleImport_restores_context [OF c] b c kb kc ctx
  show ?thesis by simp
qed

section \<open>Selection\<close>

lemma scanChild_fst:
  "set (fst (scanChild pbs types key val child acc)) =
     set (fst acc) \<union> {u. map_of (knownNames pbs) child = Some u \<and> map_of types u = None}"
  by (auto simp: scanChild_def split: option.splits)

lemma fold_scanChild_fst:
  "set (fst (fold (scanChild pbs types key val) cs acc)) =
     set (fst acc) \<union> {u. \<exists>child \<in> set cs. map_of (knownNames pbs) child = Some u \<and> map_of types u = None}"
proof (induction cs arbitrary: acc)
  case Nil
  then show ?case by simp
next
  case (Cons c cs)
  show ?case
    by (simp add: Cons.IH scanChild_fst) blast
qed

lemma fold_scanKey_fst:
  "set (fst (fold (scanKey pbs types uq) kvs acc)) =
     set (fst acc) \<union> {u. \<exists>kv \<in> set kvs. prefix uq (fst kv)
        \<and> (\<exists>child \<in> fst ` set (snd kv). map_of (knownNames pbs) child = Some u \<and> map_of types u = None)}"
proof (induction kvs arbitrary: acc)
  case Nil
  then show ?case by simp
next
  case (Cons kv kvs)
  have step: "set (fst (scanKey pbs types uq kv acc)) =
      set (fst acc) \<union> {u. prefix uq (fst kv)
        \<and> (\<exists>child \<in> fst ` set (snd kv). map_of (knownNames pbs) child = Some u \<and> map_of types u = None)}"
    by (auto simp: scanKey_def fold_scanChild_fst)
  show ?case
    by (simp add: Cons.IH step) blast
qed

lemma map_of_None_iff: "map_of al k = None \<longleftrightarrow> k \<notin> fst ` set al"
  by (simp add: map_of_eq_None_iff)

lemma scanInclusions_fst:
  "set (fst (scanInclusions pbs types (unique (types237_at pbs c) @ '':'') (ms, incl))) =
     set ms \<union> {u. (c, u) \<in> edges pbs \<and> u \<notin> fst ` set types}"
proof -
  have "{u. \<exists>kv \<in> set (inclusions pbs). prefix (unique (types237_at pbs c) @ '':'') (fst kv)
            \<and> (\<exists>child \<in> fst ` set (snd kv). map_of (knownNames pbs) child = Some u \<and> map_of types u = None)}
        = {u. (c, u) \<in> edges pbs \<and> u \<notin> fst ` set types}"
    unfolding edges_def map_of_None_iff by blast
  then show ?thesis
    unfolding scanInclusions_def fold_scanKey_fst by simp
qed

lemma closed_absorb:
  assumes "R `` T \<subseteq> T \<union> M" and "c \<in> T \<union> R\<^sup>* `` M"
  shows "R\<^sup>* `` {c} \<subseteq> T \<union> R\<^sup>* `` M"
proof -
  let ?S = "T \<union> R\<^sup>* `` M"
  have "R `` ?S \<subseteq> ?S"
  proof
    fix y assume "y \<in> R `` ?S"
    then obtain x where x: "x \<in> ?S" "(x, y) \<in> R" by auto
    show "y \<in> ?S"
    proof (cases "x \<in> T")
      case True
      with x(2) assms(1) have "y \<in> T \<union> M" by auto
      then show ?thesis by auto
    next
      case False
      with x(1) obtain m where "m \<in> M" "(m, x) \<in> R\<^sup>*" by auto
      with x(2) have "(m, y) \<in> R\<^sup>*" by (meson rtrancl.rtrancl_into_rtrancl)
      with \<open>m \<in> M\<close> show ?thesis by auto
    qed
  qed
  then have "R\<^sup>* `` ?S = ?S" by (rule Image_closed_trancl)
  moreover have "R\<^sup>* `` {c} \<subseteq> R\<^sup>* `` ?S" using assms(2) by blast
  ultimately show ?thesis by simp
qed

lemma closure_dom:
  "edges pbs `` (fst ` set types) \<subseteq> fst ` set types \<union> set ms \<Longrightarrow>
   fst ` set (fst (closure pbs ms types incl)) = fst ` set types \<union> (edges pbs)\<^sup>* `` set ms"
proof (induction pbs ms types incl rule: closure.induct)
  case (1 pbs types incl)
  then show ?case by (simp add: closure.simps)
next
  case (2 pbs candidate matches types incl)
  let ?R = "edges pbs"
  let ?T = "fst ` set types"
  show ?case
  proof (cases "map_of types candidate \<noteq> None")
    case True
    then have cT: "candidate \<in> ?T" by (simp add: map_of_None_iff)
    with "2.prems" have inv: "?R `` ?T \<subseteq> ?T \<union> set matches" by auto
    from "2.IH"(1) [OF True inv]
    have eq: "fst ` set (fst (closure pbs matches types incl)) = ?T \<union> ?R\<^sup>* `` set matches" .
    have "?R\<^sup>* `` {candidate} \<subseteq> ?T \<union> ?R\<^sup>* `` set matches"
      using inv cT by (intro closed_absorb) auto
    then have "?T \<union> ?R\<^sup>* `` set (candidate # matches) = ?T \<union> ?R\<^sup>* `` set matches"
      by auto
    with eq True show ?thesis by (simp add: closure.simps)
  next
    case False
    then have cT: "candidate \<notin> ?T" by (simp add: map_of_None_iff)
    define types1 where "types1 = AList.update candidate (types237_at pbs candidate) types"
    define uq where "uq = unique (types237_at pbs candidate) @ '':''"
    define acc where "acc = scanInclusions pbs types1 uq (matches, incl)"
    let ?T1 = "fst ` set types1"
    have T1: "?T1 = insert candidate ?T"
      by (simp add: types1_def AList.dom_update)
    have ms1: "set (fst acc) = set matches \<union> {u. (candidate, u) \<in> ?R \<and> u \<notin> ?T1}"
      unfolding acc_def uq_def by (rule scanInclusions_fst)
    have inv1: "?R `` ?T1 \<subseteq> ?T1 \<union> set (fst acc)"
      using "2.prems" by (auto simp: T1 ms1)
    have "fst ` set (fst (closure pbs (fst acc) types1 (snd acc))) = ?T1 \<union> ?R\<^sup>* `` set (fst acc)"
      using "2.IH"(2) [OF _ types1_def uq_def acc_def inv1] False by simp
    then have eq: "fst ` set (fst (closure pbs (candidate # matches) types incl)) =
        ?T1 \<union> ?R\<^sup>* `` set (fst acc)"
      using False by (simp add: closure.simps Let_def types1_def uq_def acc_def)
    have a: "?R\<^sup>* `` {candidate} \<subseteq> ?T1 \<union> ?R\<^sup>* `` set (fst acc)"
      using inv1 by (intro closed_absorb) (auto simp: T1)
    have b: "?R\<^sup>* `` set (fst acc) \<subseteq> ?R\<^sup>* `` set (candidate # matches)"
    proof -
      have "set (fst acc) \<subseteq> set matches \<union> ?R `` {candidate}"
        by (auto simp: ms1)
      then have "?R\<^sup>* `` set (fst acc) \<subseteq> ?R\<^sup>* `` set matches \<union> ?R\<^sup>* `` (?R `` {candidate})"
        by blast
      moreover have "?R\<^sup>* `` (?R `` {candidate}) \<subseteq> ?R\<^sup>* `` {candidate}"
        by (auto intro: converse_rtrancl_into_rtrancl)
      moreover have "?R\<^sup>* `` set matches \<union> ?R\<^sup>* `` {candidate} = ?R\<^sup>* `` set (candidate # matches)"
        by auto
      ultimately show ?thesis by blast
    qed
    have "?T1 \<union> ?R\<^sup>* `` set (fst acc) = ?T \<union> ?R\<^sup>* `` set (candidate # matches)"
    proof
      show "?T1 \<union> ?R\<^sup>* `` set (fst acc) \<subseteq> ?T \<union> ?R\<^sup>* `` set (candidate # matches)"
        using b by (auto simp: T1)
      show "?T \<union> ?R\<^sup>* `` set (candidate # matches) \<subseteq> ?T1 \<union> ?R\<^sup>* `` set (fst acc)"
      proof -
        have "?R\<^sup>* `` set matches \<subseteq> ?R\<^sup>* `` set (fst acc)"
          by (auto simp: ms1)
        moreover have "?R\<^sup>* `` set (candidate # matches) = ?R\<^sup>* `` {candidate} \<union> ?R\<^sup>* `` set matches"
          by auto
        ultimately show ?thesis using a by (auto simp: T1)
      qed
    qed
    with eq show ?thesis by simp
  qed
qed


lemma update_set_subset: "set (AList.update k v al) \<subseteq> insert (k, v) (set al)"
  by (induction al) auto

lemma scanChild_snd_subset:
  "set (snd (scanChild pbs types key val child acc)) \<subseteq> insert (key, val) (set (snd acc))"
  using update_set_subset [of key val "snd acc"]
  by (auto simp: scanChild_def split: option.splits)

lemma fold_scanChild_snd_subset:
  "set (snd (fold (scanChild pbs types key val) cs acc)) \<subseteq> insert (key, val) (set (snd acc))"
proof (induction cs arbitrary: acc)
  case Nil
  then show ?case by auto
next
  case (Cons c cs)
  from Cons.IH [of "scanChild pbs types key val c acc"]
    scanChild_snd_subset [of pbs types key val c acc]
  show ?case by auto
qed

lemma fold_scanKey_snd_subset:
  "set (snd (fold (scanKey pbs types uq) kvs acc)) \<subseteq> set (snd acc) \<union> set kvs"
proof (induction kvs arbitrary: acc)
  case Nil
  then show ?case by auto
next
  case (Cons kv kvs)
  have "set (snd (scanKey pbs types uq kv acc)) \<subseteq> insert kv (set (snd acc))"
    using fold_scanChild_snd_subset [of pbs types "fst kv" "snd kv" "map fst (snd kv)" acc]
    by (auto simp: scanKey_def)
  with Cons.IH [of "scanKey pbs types uq kv acc"] show ?case by auto
qed

lemma scanChild_keys:
  "fst ` set (snd (scanChild pbs types key val child acc)) =
     fst ` set (snd acc) \<union> {k. k = key \<and> map_of (knownNames pbs) child \<noteq> None}"
  by (auto simp: scanChild_def AList.dom_update split: option.splits)

lemma fold_scanChild_keys:
  "fst ` set (snd (fold (scanChild pbs types key val) cs acc)) =
     fst ` set (snd acc) \<union> {k. k = key \<and> (\<exists>child \<in> set cs. map_of (knownNames pbs) child \<noteq> None)}"
proof (induction cs arbitrary: acc)
  case Nil
  then show ?case by simp
next
  case (Cons c cs)
  show ?case
    unfolding fold_simps Cons.IH scanChild_keys by auto
qed

lemma fold_scanKey_keys:
  "fst ` set (snd (fold (scanKey pbs types uq) kvs acc)) =
     fst ` set (snd acc) \<union> {k. \<exists>kv \<in> set kvs. k = fst kv \<and> prefix uq (fst kv)
        \<and> (\<exists>child \<in> fst ` set (snd kv). map_of (knownNames pbs) child \<noteq> None)}"
proof (induction kvs arbitrary: acc)
  case Nil
  then show ?case by simp
next
  case (Cons kv kvs)
  have step: "fst ` set (snd (scanKey pbs types uq kv acc)) =
      fst ` set (snd acc) \<union> {k. k = fst kv \<and> prefix uq (fst kv)
        \<and> (\<exists>child \<in> fst ` set (snd kv). map_of (knownNames pbs) child \<noteq> None)}"
    by (auto simp: scanKey_def fold_scanChild_keys)
  show ?case
    unfolding fold_simps Cons.IH step by auto
qed

lemma scanInclusions_keys:
  "fst ` set (snd (scanInclusions pbs types (unique (types237_at pbs c) @ '':'') (ms, incl))) =
     fst ` set incl \<union> ownedKeys pbs c"
proof -
  have "{k. \<exists>kv \<in> set (inclusions pbs). k = fst kv \<and> prefix (unique (types237_at pbs c) @ '':'') (fst kv)
          \<and> (\<exists>child \<in> fst ` set (snd kv). map_of (knownNames pbs) child \<noteq> None)} = ownedKeys pbs c"
    unfolding ownedKeys_def by blast
  then show ?thesis
    unfolding scanInclusions_def fold_scanKey_keys by simp
qed

lemma scanInclusions_snd_subset:
  "set (snd (scanInclusions pbs types uq (ms, incl))) \<subseteq> set incl \<union> set (inclusions pbs)"
  unfolding scanInclusions_def using fold_scanKey_snd_subset [of pbs types uq "inclusions pbs" "(ms, incl)"]
  by simp

lemma closure_dom_mono:
  "fst ` set types \<subseteq> fst ` set (fst (closure pbs ms types incl))"
proof (induction pbs ms types incl rule: closure.induct)
  case (1 pbs types incl)
  then show ?case by (simp add: closure.simps)
next
  case (2 pbs candidate matches types incl)
  show ?case
  proof (cases "map_of types candidate \<noteq> None")
    case True
    with "2.IH"(1) show ?thesis by (simp add: closure.simps)
  next
    case False
    define types1 where "types1 = AList.update candidate (types237_at pbs candidate) types"
    define uq where "uq = unique (types237_at pbs candidate) @ '':''"
    define acc where "acc = scanInclusions pbs types1 uq (matches, incl)"
    have "fst ` set types1 \<subseteq> fst ` set (fst (closure pbs (fst acc) types1 (snd acc)))"
      using "2.IH"(2) [OF _ types1_def uq_def acc_def] False by simp
    moreover have "fst ` set types \<subseteq> fst ` set types1"
      by (auto simp: types1_def AList.dom_update)
    ultimately show ?thesis
      using False by (simp add: closure.simps Let_def types1_def uq_def acc_def)
  qed
qed

lemma closure_records:
  "set (fst (closure pbs ms types incl)) \<subseteq> set types \<union> {(k, v). v = types237_at pbs k}"
proof (induction pbs ms types incl rule: closure.induct)
  case (1 pbs types incl)
  then show ?case by (simp add: closure.simps)
next
  case (2 pbs candidate matches types incl)
  show ?case
  proof (cases "map_of types candidate \<noteq> None")
    case True
    with "2.IH"(1) show ?thesis by (simp add: closure.simps)
  next
    case False
    define types1 where "types1 = AList.update candidate (types237_at pbs candidate) types"
    define uq where "uq = unique (types237_at pbs candidate) @ '':''"
    define acc where "acc = scanInclusions pbs types1 uq (matches, incl)"
    have "set (fst (closure pbs (fst acc) types1 (snd acc))) \<subseteq> set types1 \<union> {(k, v). v = types237_at pbs k}"
      using "2.IH"(2) [OF _ types1_def uq_def acc_def] False by simp
    moreover have "set types1 \<subseteq> insert (candidate, types237_at pbs candidate) (set types)"
      unfolding types1_def by (rule update_set_subset)
    ultimately have "set (fst (closure pbs (fst acc) types1 (snd acc))) \<subseteq> set types \<union> {(k, v). v = types237_at pbs k}"
      by auto
    then show ?thesis
      using False by (simp add: closure.simps Let_def types1_def uq_def acc_def)
  qed
qed

lemma closure_incl_subset:
  "set (snd (closure pbs ms types incl)) \<subseteq> set incl \<union> set (inclusions pbs)"
proof (induction pbs ms types incl rule: closure.induct)
  case (1 pbs types incl)
  then show ?case by (simp add: closure.simps)
next
  case (2 pbs candidate matches types incl)
  show ?case
  proof (cases "map_of types candidate \<noteq> None")
    case True
    with "2.IH"(1) show ?thesis by (simp add: closure.simps)
  next
    case False
    define types1 where "types1 = AList.update candidate (types237_at pbs candidate) types"
    define uq where "uq = unique (types237_at pbs candidate) @ '':''"
    define acc where "acc = scanInclusions pbs types1 uq (matches, incl)"
    have "set (snd (closure pbs (fst acc) types1 (snd acc))) \<subseteq> set (snd acc) \<union> set (inclusions pbs)"
      using "2.IH"(2) [OF _ types1_def uq_def acc_def] False by simp
    moreover have "set (snd acc) \<subseteq> set incl \<union> set (inclusions pbs)"
      unfolding acc_def by (rule scanInclusions_snd_subset)
    ultimately have "set (snd (closure pbs (fst acc) types1 (snd acc))) \<subseteq> set incl \<union> set (inclusions pbs)"
      by auto
    then show ?thesis
      using False by (simp add: closure.simps Let_def types1_def uq_def acc_def)
  qed
qed

lemma closure_keys:
  "fst ` set (snd (closure pbs ms types incl)) =
     fst ` set incl \<union> \<Union> (ownedKeys pbs ` (fst ` set (fst (closure pbs ms types incl)) - fst ` set types))"
proof (induction pbs ms types incl rule: closure.induct)
  case (1 pbs types incl)
  then show ?case by (simp add: closure.simps)
next
  case (2 pbs candidate matches types incl)
  show ?case
  proof (cases "map_of types candidate \<noteq> None")
    case True
    with "2.IH"(1) show ?thesis by (simp add: closure.simps)
  next
    case False
    then have cT: "candidate \<notin> fst ` set types" by (simp add: map_of_None_iff)
    define types1 where "types1 = AList.update candidate (types237_at pbs candidate) types"
    define uq where "uq = unique (types237_at pbs candidate) @ '':''"
    define acc where "acc = scanInclusions pbs types1 uq (matches, incl)"
    define out where "out = closure pbs (fst acc) types1 (snd acc)"
    have unfold: "closure pbs (candidate # matches) types incl = out"
      using False by (simp add: closure.simps Let_def types1_def uq_def acc_def out_def)
    have T1: "fst ` set types1 = insert candidate (fst ` set types)"
      by (simp add: types1_def AList.dom_update)
    have IH: "fst ` set (snd out) =
        fst ` set (snd acc) \<union> \<Union> (ownedKeys pbs ` (fst ` set (fst out) - fst ` set types1))"
      unfolding out_def using "2.IH"(2) [OF _ types1_def uq_def acc_def] False by simp
    have k: "fst ` set (snd acc) = fst ` set incl \<union> ownedKeys pbs candidate"
      unfolding acc_def uq_def by (rule scanInclusions_keys)
    have "candidate \<in> fst ` set (fst out)"
      using closure_dom_mono [of types1 pbs "fst acc" "snd acc"] T1 by (auto simp: out_def)
    then have "fst ` set (fst out) - fst ` set types =
        insert candidate (fst ` set (fst out) - fst ` set types1)"
      using cT T1 by auto
    then show ?thesis
      unfolding unfold IH k by auto
  qed
qed

lemma edges_say [simp]: "edges (say d pbs) = edges pbs"
  by (simp add: edges_def types237_at_def say_def)

lemma ownedKeys_say [simp]: "ownedKeys (say d pbs) = ownedKeys pbs"
  by (simp add: ownedKeys_def types237_at_def say_def fun_eq_iff)

lemma types237_at_say [simp]: "types237_at (say d pbs) = types237_at pbs"
  by (simp add: types237_at_def say_def fun_eq_iff)

lemma expandSelection_say [simp]: "expandSelection (say d pbs) sel = expandSelection pbs sel"
  by (simp add: expandSelection_def say_def)

text \<open>
  C8.  When the selection names exactly one entity and it is a message, the
  entities handed to the renderer are exactly those reachable from the message
  along inclusion edges (the message itself included), each with its record from
  the registry; the selected edges are edges of the graph, and their keys are the
  keys owned by the selected entities.
\<close>

theorem selected_message_closure:
  assumes "expandSelection pbs sel = Inr [m]"
    and "typename (types237_at pbs m) = typenameMessage"
  shows "\<exists>types incl.
           writer (showSelectedInclusion pbs sel) = writer pbs @ [EmitInclusion False True types incl]
           \<and> fst ` set types = (edges pbs)\<^sup>* `` {m}
           \<and> (\<forall>kv \<in> set types. snd kv = types237_at pbs (fst kv))
           \<and> set incl \<subseteq> set (inclusions pbs)
           \<and> fst ` set incl = \<Union> (ownedKeys pbs ` ((edges pbs)\<^sup>* `` {m}))"
proof -
  let ?p = "say (Status [''limiting output to the following: '', sel]) pbs"
  define out where "out = closure ?p [m] [] []"
  have seed: "fold (seedOne ?p) [m] ([m], [], [], []) = ([m], [], [], [])"
    using assms(2) by (simp add: seedOne_def)
  have sel: "selectInclusion ?p [m] = (fst out, snd out, [])"
    unfolding selectInclusion_def seed out_def by (simp add: split_beta)
  have w: "writer (showSelectedInclusion pbs sel) =
      writer pbs @ [EmitInclusion False True (fst out) (snd out)]"
    using assms(1) by (simp add: showSelectedInclusion_def Let_def sel) (simp add: say_def)
  have d: "fst ` set (fst out) = (edges pbs)\<^sup>* `` {m}"
    unfolding out_def using closure_dom [of ?p "[]" "[m]" "[]"] by simp
  have r: "\<forall>kv \<in> set (fst out). snd kv = types237_at pbs (fst kv)"
    unfolding out_def using closure_records [of ?p "[m]" "[]" "[]"] by auto
  have i: "set (snd out) \<subseteq> set (inclusions pbs)"
    unfolding out_def using closure_incl_subset [of ?p "[m]" "[]" "[]"] by (simp add: say_def)
  have "fst ` set (snd out) = \<Union> (ownedKeys pbs ` (fst ` set (fst out)))"
    using closure_keys [of ?p "[m]" "[]" "[]"] by (simp add: out_def)
  then have k: "fst ` set (snd out) = \<Union> (ownedKeys pbs ` ((edges pbs)\<^sup>* `` {m}))"
    unfolding d .
  from w d r i k show ?thesis by blast
qed


theorem selected_message_closure_witness:
  "expandSelection svcState ''Req'' = Inr [''p.Req'']
   \<and> typename (types237_at svcState ''p.Req'') = typenameMessage
   \<and> writer (showSelectedInclusion svcState ''Req'') =
       writer svcState @
         [EmitInclusion False True
            [(''p.Req'', types237_at svcState ''p.Req''), (''p.Inner'', types237_at svcState ''p.Inner'')]
            [(''Ja_100:i'', [(''Ja_101'', 1)])]]
   \<and> (edges svcState)\<^sup>* `` {''p.Req''} = {''p.Req'', ''p.Inner''}"
proof -
  have e: "expandSelection svcState ''Req'' = Inr [''p.Req'']" by code_simp
  have t: "typename (types237_at svcState ''p.Req'') = typenameMessage" by code_simp
  have w: "writer (showSelectedInclusion svcState ''Req'') =
       writer svcState @
         [EmitInclusion False True
            [(''p.Req'', types237_at svcState ''p.Req''), (''p.Inner'', types237_at svcState ''p.Inner'')]
            [(''Ja_100:i'', [(''Ja_101'', 1)])]]"
    by code_simp
  from selected_message_closure [OF e t] w
  have "(edges svcState)\<^sup>* `` {''p.Req''} = {''p.Req'', ''p.Inner''}"
    by auto
  with e t w show ?thesis by simp
qed

lemma rpcTargets_say [simp]: "rpcTargets (say d pbs) = rpcTargets pbs"
  by (simp add: rpcTargets_def fun_eq_iff)

lemma rpcKeys_say [simp]: "rpcKeys (say d pbs) = rpcKeys pbs"
  by (simp add: rpcKeys_def fun_eq_iff)

lemma getInclusion_say [simp]: "getInclusion (say d pbs) = getInclusion pbs"
  by (simp add: getInclusion_def say_def fun_eq_iff)

lemma seedOne_rpc:
  assumes "typename (types237_at pbs m) = typenameRPC"
    and "object (types237_at pbs m) = ObjRPC r"
  shows "\<exists>ms incl. seedOne pbs m ([m], [], [], []) =
           (ms, [(parent (types237_at pbs m), types237_at pbs (parent (types237_at pbs m)))], incl, [])
         \<and> set ms = insert m (rpcTargets pbs (parent (types237_at pbs m)) r)
         \<and> set incl \<subseteq> set (inclusions pbs)
         \<and> fst ` set incl = rpcKeys pbs (parent (types237_at pbs m)) r \<inter> fst ` set (inclusions pbs)"
proof -
  let ?svc = "parent (types237_at pbs m)"
  let ?u = "unique (types237_at pbs ?svc)"
  let ?k1 = "inclusionKey ?u (rpc_Name r @ ''_request'')"
  let ?k2 = "inclusionKey ?u (rpc_Name r @ ''_response'')"
  define ms where "ms = fold (\<lambda>one acc. case getResolution pbs ?svc one of
                                Some i \<Rightarrow> acc @ [fullname i] | None \<Rightarrow> acc)
                          [RequestType r, ReturnsType r] [m]"
  define incl where "incl = fold (\<lambda>sfx acc. case getInclusion pbs ?u (rpc_Name r @ sfx) of
                                  (from, Some to) \<Rightarrow> AList.update from to acc
                                | (from, None) \<Rightarrow> acc)
                            [''_request'', ''_response''] ([] :: (UniqueName \<times> (UniqueName \<times> int) list) list)"
  have s: "seedOne pbs m ([m], [], [], []) = (ms, [(?svc, types237_at pbs ?svc)], incl, [])"
    using assms by (simp add: seedOne_def Let_def ms_def incl_def)
  have m: "set ms = insert m (rpcTargets pbs ?svc r)"
    by (auto simp: ms_def rpcTargets_def split: option.splits)
  have mem: "map_of (inclusions pbs) k = Some v \<Longrightarrow> (k, v) \<in> set (inclusions pbs)" for k v
    by (rule map_of_SomeD)
  have i1: "set incl \<subseteq> set (inclusions pbs)"
    using update_set_subset [of ?k2 _ "[]"] update_set_subset [of ?k2 _ "[(?k1, _)]"]
    by (auto simp: incl_def getInclusion_def Let_def split: option.splits dest!: mem)
  have i2: "fst ` set incl = rpcKeys pbs ?svc r \<inter> fst ` set (inclusions pbs)"
    by (auto simp: incl_def getInclusion_def Let_def rpcKeys_def AList.dom_update map_of_None_iff
          split: option.splits dest!: mem intro: rev_image_eqI)
  from s m i1 i2 show ?thesis by blast
qed

lemma map_of_subset_distinct:
  assumes "set al \<subseteq> set bl" and "distinct (map fst bl)" and "k \<in> fst ` set al"
  shows "map_of al k = map_of bl k"
proof -
  from assms(3) obtain v where v: "map_of al k = Some v"
    by (metis map_of_None_iff not_Some_eq)
  then have "(k, v) \<in> set bl" using assms(1) by (auto dest: map_of_SomeD)
  with assms(2) have "map_of bl k = Some v" by simp
  with v show ?thesis by simp
qed

text \<open>
  C7, as the claim states it: the selection of one RPC method includes the
  request and response entities of the method and has the edges from the service
  to them.  It fails.  \<open>lateRun\<close> is the run over \<open>lateFiles\<close> with the
  selection \<^verbatim>\<open>Svc.Get\<close>: the service is in the imported file, and the root file
  declares \<^verbatim>\<open>Req\<close> and \<^verbatim>\<open>Resp\<close> after the import.  Both are registered when
  the selection is made, each the only candidate of its short name, but the
  selection holds the method and the service only and no edge:
  \<^verbatim>\<open>showSelectedInclusion\<close> reads the memo of \<^verbatim>\<open>getResolution\<close> and copies the
  edges that the build recorded, and does not resolve the types again.
\<close>

theorem rpc_selection_without_targets:
  "process 2 (fileEnv lateFiles False False) NewPbs ''a.proto'' ''Svc.Get'' = Some (Inr (True, lateRun))
   \<and> map (\<lambda>kv. (fst kv, unique (snd kv), typename (snd kv))) (types237 lateRun) =
       [(''p.Svc.Get'', ''Ja_101'', typenameRPC), (''p.Svc'', ''Ja_100'', typenameService),
        (''p.Req'', ''Ja_102'', typenameMessage), (''p.Resp'', ''Ja_103'', typenameMessage)]
   \<and> object (types237_at lateRun ''p.Svc.Get'') = ObjRPC (RPC ''Get'' ''Req'' ''Resp'' False False)
   \<and> map_of (translate lateRun) ''Req'' = Some [''p.Req'']
   \<and> map_of (translate lateRun) ''Resp'' = Some [''p.Resp'']
   \<and> expandSelection lateRun ''Svc.Get'' = Inr [''p.Svc.Get'']
   \<and> inclusions lateRun = []
   \<and> writer lateRun =
       [EmitInclusion False True
          [(''p.Svc.Get'', types237_at lateRun ''p.Svc.Get''), (''p.Svc'', types237_at lateRun ''p.Svc'')]
          []]"
  by code_simp

text \<open>
  C7, amended.  When the selection names exactly one entity and it is an RPC
  method of the service \<open>svc\<close>: the selected entities are the service, with its
  record from the registry, and everything reachable from the method and from the
  entities that its request and response types are resolved to in the scope of
  the service when the selection is made.  Each of the two that is resolved is
  selected; when neither is, the selection is the service and what is reachable
  from the method.  The service is added without a walk over its own edges.  The
  selected edge set agrees with the graph on the two keys
  \<^verbatim>\<open><service alias>:<method>_request\<close> and \<^verbatim>\<open><service alias>:<method>_response\<close>,
  so an edge that the build recorded under one of them is selected and none is
  made up; its other keys are those owned by the entities reached from the seeds.
\<close>

theorem selected_rpc_expansion:
  assumes sel: "expandSelection pbs sel = Inr [m]"
    and rpc: "typename (types237_at pbs m) = typenameRPC"
    and obj: "object (types237_at pbs m) = ObjRPC r"
    and dist: "distinct (map fst (inclusions pbs))"
  shows "\<exists>types incl.
           writer (showSelectedInclusion pbs sel) = writer pbs @ [EmitInclusion False True types incl]
           \<and> map_of types (parent (types237_at pbs m)) =
               Some (types237_at pbs (parent (types237_at pbs m)))
           \<and> fst ` set types =
               insert (parent (types237_at pbs m))
                 ((edges pbs)\<^sup>* `` insert m (rpcTargets pbs (parent (types237_at pbs m)) r))
           \<and> (\<forall>i. getResolution pbs (parent (types237_at pbs m)) (RequestType r) = Some i
                    \<or> getResolution pbs (parent (types237_at pbs m)) (ReturnsType r) = Some i \<longrightarrow>
                 fullname i \<in> fst ` set types)
           \<and> (getResolution pbs (parent (types237_at pbs m)) (RequestType r) = None
               \<and> getResolution pbs (parent (types237_at pbs m)) (ReturnsType r) = None \<longrightarrow>
                 fst ` set types = insert (parent (types237_at pbs m)) ((edges pbs)\<^sup>* `` {m}))
           \<and> (\<forall>k \<in> rpcKeys pbs (parent (types237_at pbs m)) r.
                 map_of incl k = map_of (inclusions pbs) k)
           \<and> set incl \<subseteq> set (inclusions pbs)
           \<and> fst ` set incl =
               (rpcKeys pbs (parent (types237_at pbs m)) r \<inter> fst ` set (inclusions pbs))
               \<union> \<Union> (ownedKeys pbs `
                    ((edges pbs)\<^sup>* `` insert m (rpcTargets pbs (parent (types237_at pbs m)) r)))"
proof -
  let ?p = "say (Status [''limiting output to the following: '', sel]) pbs"
  let ?svc = "parent (types237_at pbs m)"
  let ?seeds = "insert m (rpcTargets pbs ?svc r)"
  from seedOne_rpc [of ?p m r] rpc obj obtain ms incl0 where
    s: "seedOne ?p m ([m], [], [], []) = (ms, [(?svc, types237_at pbs ?svc)], incl0, [])"
    and ms: "set ms = ?seeds"
    and i0: "set incl0 \<subseteq> set (inclusions pbs)"
    and k0: "fst ` set incl0 = rpcKeys pbs ?svc r \<inter> fst ` set (inclusions pbs)"
    by auto
  define out where "out = closure ?p ms [] incl0"
  define types where "types = AList.update ?svc (types237_at pbs ?svc) (fst out)"
  have selI: "selectInclusion ?p [m] = (types, snd out, [])"
    unfolding selectInclusion_def by (simp add: s out_def types_def split_beta)
  have w: "writer (showSelectedInclusion pbs sel) =
      writer pbs @ [EmitInclusion False True types (snd out)]"
    using sel by (simp add: showSelectedInclusion_def Let_def selI) (simp add: say_def)
  have d: "fst ` set (fst out) = (edges pbs)\<^sup>* `` ?seeds"
    unfolding out_def using closure_dom [of ?p "[]" ms incl0] ms by simp
  have t1: "map_of types ?svc = Some (types237_at pbs ?svc)"
    by (simp add: types_def AList.update_conv')
  have t2: "fst ` set types = insert ?svc ((edges pbs)\<^sup>* `` ?seeds)"
    by (simp add: types_def AList.dom_update d)
  have t3: "\<forall>i. getResolution pbs ?svc (RequestType r) = Some i
                \<or> getResolution pbs ?svc (ReturnsType r) = Some i \<longrightarrow>
              fullname i \<in> fst ` set types"
  proof (intro allI impI)
    fix i
    assume "getResolution pbs ?svc (RequestType r) = Some i
            \<or> getResolution pbs ?svc (ReturnsType r) = Some i"
    then have "fullname i \<in> rpcTargets pbs ?svc r" by (auto simp: rpcTargets_def)
    then have "fullname i \<in> (edges pbs)\<^sup>* `` ?seeds" by blast
    then show "fullname i \<in> fst ` set types" unfolding t2 by blast
  qed
  have t4: "getResolution pbs ?svc (RequestType r) = None
            \<and> getResolution pbs ?svc (ReturnsType r) = None \<longrightarrow>
              fst ` set types = insert ?svc ((edges pbs)\<^sup>* `` {m})"
  proof
    assume "getResolution pbs ?svc (RequestType r) = None
            \<and> getResolution pbs ?svc (ReturnsType r) = None"
    then have "rpcTargets pbs ?svc r = {}" by (auto simp: rpcTargets_def)
    then show "fst ` set types = insert ?svc ((edges pbs)\<^sup>* `` {m})" unfolding t2 by simp
  qed
  have isub: "set (snd out) \<subseteq> set (inclusions pbs)"
    unfolding out_def using closure_incl_subset [of ?p ms "[]" incl0] i0 by (auto simp: say_def)
  have "fst ` set (snd out) = fst ` set incl0 \<union> \<Union> (ownedKeys pbs ` (fst ` set (fst out)))"
    using closure_keys [of ?p ms "[]" incl0] by (simp add: out_def)
  then have keys: "fst ` set (snd out) =
      (rpcKeys pbs ?svc r \<inter> fst ` set (inclusions pbs)) \<union> \<Union> (ownedKeys pbs ` ((edges pbs)\<^sup>* `` ?seeds))"
    unfolding d k0 .
  have vals: "\<forall>k \<in> rpcKeys pbs ?svc r. map_of (snd out) k = map_of (inclusions pbs) k"
  proof
    fix k assume k: "k \<in> rpcKeys pbs ?svc r"
    show "map_of (snd out) k = map_of (inclusions pbs) k"
    proof (cases "k \<in> fst ` set (inclusions pbs)")
      case True
      with k keys have "k \<in> fst ` set (snd out)" by blast
      with isub dist show ?thesis by (rule map_of_subset_distinct)
    next
      case False
      with isub have "k \<notin> fst ` set (snd out)" by auto
      with False show ?thesis by (simp add: map_of_None_iff [symmetric])
    qed
  qed
  from w t1 t2 t3 t4 vals isub keys show ?thesis by blast
qed

theorem selected_rpc_expansion_witness:
  "expandSelection svcState ''Svc.Get'' = Inr [''p.Svc.Get'']
   \<and> typename (types237_at svcState ''p.Svc.Get'') = typenameRPC
   \<and> object (types237_at svcState ''p.Svc.Get'') = ObjRPC (RPC ''Get'' ''Req'' ''Resp'' False False)
   \<and> parent (types237_at svcState ''p.Svc.Get'') = ''p.Svc''
   \<and> distinct (map fst (inclusions svcState))
   \<and> map fst (inclusions svcState) =
       [''Ja_100:i'', ''Ja_104:Get_request'', ''Ja_104:Get_response'',
        ''Ja_104:Put_request'', ''Ja_104:Put_response'']
   \<and> map_option fullname (getResolution svcState ''p.Svc'' ''Req'') = Some ''p.Req''
   \<and> map_option fullname (getResolution svcState ''p.Svc'' ''Resp'') = Some ''p.Resp''
   \<and> writer (showSelectedInclusion svcState ''Svc.Get'') =
       writer svcState @
         [EmitInclusion False True
            [(''p.Svc.Get'', types237_at svcState ''p.Svc.Get''),
             (''p.Req'', types237_at svcState ''p.Req''),
             (''p.Resp'', types237_at svcState ''p.Resp''),
             (''p.Inner'', types237_at svcState ''p.Inner''),
             (''p.Svc'', types237_at svcState ''p.Svc'')]
            [(''Ja_104:Get_request'', [(''Ja_100'', 1)]),
             (''Ja_104:Get_response'', [(''Ja_102'', 1)]),
             (''Ja_100:i'', [(''Ja_101'', 1)])]]
   \<and> insert ''p.Svc'' ((edges svcState)\<^sup>* ``
         insert ''p.Svc.Get'' (rpcTargets svcState ''p.Svc'' (RPC ''Get'' ''Req'' ''Resp'' False False))) =
       {''p.Svc.Get'', ''p.Req'', ''p.Resp'', ''p.Inner'', ''p.Svc''}"
proof -
  let ?r = "RPC ''Get'' ''Req'' ''Resp'' False False"
  have e: "expandSelection svcState ''Svc.Get'' = Inr [''p.Svc.Get'']" by code_simp
  have t: "typename (types237_at svcState ''p.Svc.Get'') = typenameRPC" by code_simp
  have ob: "object (types237_at svcState ''p.Svc.Get'') = ObjRPC ?r" by code_simp
  have pa: "parent (types237_at svcState ''p.Svc.Get'') = ''p.Svc''" by code_simp
  have ks: "map fst (inclusions svcState) =
       [''Ja_100:i'', ''Ja_104:Get_request'', ''Ja_104:Get_response'',
        ''Ja_104:Put_request'', ''Ja_104:Put_response'']"
    by code_simp
  have di: "distinct (map fst (inclusions svcState))"
    unfolding ks by simp
  have rq: "map_option fullname (getResolution svcState ''p.Svc'' ''Req'') = Some ''p.Req''"
    by code_simp
  have rs: "map_option fullname (getResolution svcState ''p.Svc'' ''Resp'') = Some ''p.Resp''"
    by code_simp
  have w: "writer (showSelectedInclusion svcState ''Svc.Get'') =
       writer svcState @
         [EmitInclusion False True
            [(''p.Svc.Get'', types237_at svcState ''p.Svc.Get''),
             (''p.Req'', types237_at svcState ''p.Req''),
             (''p.Resp'', types237_at svcState ''p.Resp''),
             (''p.Inner'', types237_at svcState ''p.Inner''),
             (''p.Svc'', types237_at svcState ''p.Svc'')]
            [(''Ja_104:Get_request'', [(''Ja_100'', 1)]),
             (''Ja_104:Get_response'', [(''Ja_102'', 1)]),
             (''Ja_100:i'', [(''Ja_101'', 1)])]]"
    by code_simp
  obtain types incl where
    a: "writer (showSelectedInclusion svcState ''Svc.Get'') =
          writer svcState @ [EmitInclusion False True types incl]"
    and b: "fst ` set types =
               insert (parent (types237_at svcState ''p.Svc.Get''))
                 ((edges svcState)\<^sup>* `` insert ''p.Svc.Get''
                    (rpcTargets svcState (parent (types237_at svcState ''p.Svc.Get'')) ?r))"
    using selected_rpc_expansion [OF e t ob di] by (elim exE conjE) (rule that, assumption+)
  from a w have "types = [(''p.Svc.Get'', types237_at svcState ''p.Svc.Get''),
             (''p.Req'', types237_at svcState ''p.Req''),
             (''p.Resp'', types237_at svcState ''p.Resp''),
             (''p.Inner'', types237_at svcState ''p.Inner''),
             (''p.Svc'', types237_at svcState ''p.Svc'')]"
    by simp
  with b have "insert ''p.Svc'' ((edges svcState)\<^sup>* `` insert ''p.Svc.Get'' (rpcTargets svcState ''p.Svc'' ?r)) =
       {''p.Svc.Get'', ''p.Req'', ''p.Resp'', ''p.Inner'', ''p.Svc''}"
    unfolding pa by auto
  with e t ob pa ks di rq rs w show ?thesis by simp
qed

section \<open>The walk over the imports\<close>

lemma procLog_append: "procLog (xs @ ys) = procLog xs @ procLog ys"
  by (induction xs rule: procLog.induct) auto

lemma fview_say:
  "procLog [d] = [] \<Longrightarrow> fview (say d pbs) = fview pbs"
  by (simp add: fview_def say_def procLog_append)

lemma fview_upd [simp]:
  "fview (pbs\<lparr>types237 := a1\<rparr>) = fview pbs"
  "fview (pbs\<lparr>translate := a2\<rparr>) = fview pbs"
  "fview (pbs\<lparr>inclusions := a3\<rparr>) = fview pbs"
  "fview (pbs\<lparr>resolutions := a4\<rparr>) = fview pbs"
  "fview (pbs\<lparr>diveDepth := a5\<rparr>) = fview pbs"
  "fview (pbs\<lparr>counter := a6\<rparr>) = fview pbs"
  "fview (pbs\<lparr>knownNames := a7\<rparr>) = fview pbs"
  "fview (pbs\<lparr>dive := a8\<rparr>) = fview pbs"
  "fview (pbs\<lparr>proto := a9\<rparr>) = fview pbs"
  "fview (pbs\<lparr>pkg := a10\<rparr>) = fview pbs"
  "fview (pbs\<lparr>rootDir := a11\<rparr>) = fview pbs"
  "fview (pbs\<lparr>outputFile := a12\<rparr>) = fview pbs"
  "fview (pbs\<lparr>selection := a13\<rparr>) = fview pbs"
  "fview (pbs\<lparr>writer := a14\<rparr>) = fview pbs"
  by (simp_all add: fview_def)

lemma fview_say_simps [simp]:
  "fview (say (Alert x) pbs) = fview pbs"
  "fview (say (Assert x) pbs) = fview pbs"
  "fview (say (Status x) pbs) = fview pbs"
  "fview (say (Debug x) pbs) = fview pbs"
  by (simp_all add: fview_say)

lemma fview_getUniqueName [simp]: "fview (snd (getUniqueName pbs a b)) = fview pbs"
  by (simp add: getUniqueName_def Let_def)

lemma fview_saveMapping [simp]: "fview (saveMapping pbs a b) = fview pbs"
  by (simp add: saveMapping_def split: option.splits)

lemma fview_addResolution [simp]: "fview (addResolution pbs a b c) = fview pbs"
  by (simp add: addResolution_def Let_def)

lemma fview_recordInclusion [simp]: "fview (recordInclusion pbs a b c) = fview pbs"
  by (simp add: recordInclusion_def Let_def)

lemma fview_recordMissingType [simp]: "fview (snd (recordMissingType E pbs a b)) = fview pbs"
  by (simp add: recordMissingType_def Let_def split_beta split: option.splits)

lemma fview_recordMissingInclusion [simp]: "fview (recordMissingInclusion E pbs a b c) = fview pbs"
  by (simp add: recordMissingInclusion_def split_beta)

lemma fview_includeReference [simp]: "fview (includeReference E pbs a b c d e) = fview pbs"
  by (simp add: includeReference_def split: option.splits)

lemma fview_getKind [simp]: "fview (snd (getKind E pbs a b)) = fview pbs"
  by (simp add: getKind_def split: option.splits)







lemma fview_onOneofFields [simp]: "fview (onOneofFields E a u els pbs) = fview pbs"
  by (induction E a u els pbs rule: onOneofFields.induct) auto

lemma fview_bodyElements [simp]: "fview (snd (bodyElements E a i els acc)) = fview (snd acc)"
  by (induction E a i els acc rule: bodyElements.induct)
     (auto simp: Let_def split_beta onOneof_def)

lemma fview_handleMessageBody [simp]: "fview (handleMessageBody E pbs p nm ext els) = fview pbs"
  by (simp add: handleMessageBody_def Let_def split_beta)



lemma fview_declareRPCs [simp]: "fview (declareRPCs pbs a b c els) = fview pbs"
proof (induction els arbitrary: pbs)
  case Nil
  then show ?case by simp
next
  case (Cons e els)
  show ?case by (cases e) (simp_all add: Let_def split_beta Cons.IH)
qed

lemma fview_handleServiceDeclaration [simp]: "fview (handleServiceDeclaration E pbs p srv) = fview pbs"
  by (simp add: handleServiceDeclaration_def Let_def split_beta)

lemma fview_handleMessageDeclaration [simp]: "fview (handleMessageDeclaration pbs p nm ext pos) = fview pbs"
  by (simp add: handleMessageDeclaration_def Let_def split_beta)

lemma fview_handleEnumDeclaration [simp]: "fview (handleEnumDeclaration E pbs p nm pos els) = fview pbs"
  by (simp add: handleEnumDeclaration_def Let_def split_beta)

lemma map_fst_update_present:
  "map_of al k = Some v \<Longrightarrow> map fst (AList.update k w al) = map fst al"
  by (induction al) (auto split: if_splits)

lemma fview_updCurrentPkgInfo [simp]: "fview (updCurrentPkgInfo pbs f) = fview pbs"
proof (cases "if proto pbs \<noteq> [] then map_of (knownFiles pbs) (proto pbs) else None")
  case None
  then show ?thesis by (simp add: updCurrentPkgInfo_def)
next
  case (Some info)
  then have "map_of (knownFiles pbs) (proto pbs) = Some info"
    by (simp split: if_splits)
  then have "map fst (AList.update (proto pbs) (f info) (knownFiles pbs)) = map fst (knownFiles pbs)"
    by (rule map_fst_update_present)
  with Some show ?thesis by (simp add: updCurrentPkgInfo_def fview_def)
qed

lemma fview_handleSyntax [simp]: "fview (handleSyntax pbs v) = fview pbs"
  by (simp add: handleSyntax_def)

lemma fview_handlePackageDeclaration [simp]: "fview (handlePackageDeclaration pbs v) = fview pbs"
  by (simp add: handlePackageDeclaration_def)

lemma fview_showInclusion [simp]: "fview (showInclusion pbs a b) = fview pbs"
  by (simp add: showInclusion_def)

lemma fview_showDependencyTree [simp]: "fview (showDependencyTree pbs) = fview pbs"
  by (simp add: showDependencyTree_def)

lemma seedOne_diags:
  "procLog (snd (snd (snd st))) = [] \<Longrightarrow> procLog (snd (snd (snd (seedOne pbs m st)))) = []"
  by (auto simp: seedOne_def Let_def procLog_append split: prod.splits object.splits)

lemma fold_seedOne_diags:
  "procLog (snd (snd (snd st))) = [] \<Longrightarrow> procLog (snd (snd (snd (fold (seedOne pbs) ms st)))) = []"
  by (induction ms arbitrary: st) (auto simp: seedOne_diags)

lemma selectInclusion_diags: "procLog (snd (snd (selectInclusion pbs ms))) = []"
  using fold_seedOne_diags [of "(ms, [], [], [])" pbs ms]
  by (simp add: selectInclusion_def split_beta)

lemma fview_showSelectedInclusion [simp]: "fview (showSelectedInclusion pbs sel) = fview pbs"
proof -
  let ?p = "say (Status [''limiting output to the following: '', sel]) pbs"
  show ?thesis
  proof (cases "expandSelection ?p sel")
    case (Inl e)
    then show ?thesis
      by (cases e) (simp_all add: showSelectedInclusion_def Let_def)
  next
    case (Inr ms)
    have "procLog (log ?p @ snd (snd (selectInclusion ?p ms))) = procLog (log ?p)"
      by (simp add: procLog_append selectInclusion_diags)
    then have "fview (?p\<lparr>log := log ?p @ snd (snd (selectInclusion ?p ms)), writer := w\<rparr>) = fview ?p" for w
      by (simp add: fview_def)
    with Inr show ?thesis
      by (simp add: showSelectedInclusion_def Let_def split_beta)
  qed
qed













lemma keysOf_update: "keysOf (pbs\<lparr>knownFiles := AList.update k v (knownFiles pbs)\<rparr>) = insert k (keysOf pbs)"
  by (simp add: keysOf_def AList.dom_update)







section \<open>The order of the passes\<close>









lemma addResolution_frame [simp]:
  "translate (addResolution pbs a b c) = translate pbs"
  "types237 (addResolution pbs a b c) = types237 pbs"
  by (simp_all add: addResolution_def Let_def)

lemma missingByName_addResolution [simp]:
  "missingByName (addResolution pbs a b c) = missingByName pbs"
  by (simp add: missingByName_def fun_eq_iff)


lemma say_translate [simp]: "translate (say d pbs) = translate pbs"
  by (simp add: say_def)







text \<open>
  No step of a run removes a candidate of a short name or a key of the registry:
  the third walk and the rendering keep the candidates and only add keys, the
  declarations of the first walk add both.
\<close>

lemma regLe_refl [simp]: "regLe s s"
  by (simp add: regLe_def)




lemma keeps_refl [simp]: "keeps s s"
  by (simp add: keeps_def)

lemma keeps_trans: "keeps a b \<Longrightarrow> keeps b c \<Longrightarrow> keeps a c"
  by (auto simp: keeps_def)


lemma keeps_say [simp]: "keeps s (say d s)"
  by (simp add: keeps_def)

lemma getUniqueName_translate [simp]: "translate (snd (getUniqueName pbs a b)) = translate pbs"
  by (simp add: getUniqueName_def Let_def)

lemma keeps_recordInclusion [simp]: "keeps s (recordInclusion s a b c)"
  by (simp add: keeps_def recordInclusion_def Let_def)

lemma keeps_recordMissingType [simp]: "keeps s (snd (recordMissingType E s a b))"
  by (auto simp: keeps_def recordMissingType_def Let_def split_beta AList.dom_update split: option.splits)

lemma keeps_recordMissingInclusion [simp]: "keeps s (recordMissingInclusion E s a b c)"
proof (cases "show_missing_types E")
  case True
  have "keeps (snd (recordMissingType E s a c))
          (recordInclusion (snd (recordMissingType E s a c)) a b (fst (recordMissingType E s a c)))"
    by simp
  from keeps_trans [OF keeps_recordMissingType this] True show ?thesis
    by (simp add: recordMissingInclusion_def split_beta)
next
  case False
  then show ?thesis by (simp add: recordMissingInclusion_def)
qed

lemma keeps_includeReference [simp]: "keeps s (includeReference E s a b c d e)"
proof (cases "getResolution s a d")
  case None
  have "keeps s (say (Alert e) s)" by simp
  moreover have "keeps (say (Alert e) s) (recordMissingInclusion E (say (Alert e) s) b c d)" by simp
  ultimately have "keeps s (recordMissingInclusion E (say (Alert e) s) b c d)" by (rule keeps_trans)
  with None show ?thesis by (simp add: includeReference_def)
next
  case (Some i)
  then show ?thesis by (simp add: includeReference_def)
qed

lemma keeps_getKind [simp]: "keeps s (snd (getKind E s a b))"
  by (simp add: getKind_def split: option.splits)









lemma keeps_updCurrentPkgInfo [simp]: "keeps s (updCurrentPkgInfo s f)"
  by (simp add: keeps_def updCurrentPkgInfo_def say_def split: option.splits)

lemma keeps_handleSyntax [simp]: "keeps s (handleSyntax s v)"
  by (simp add: handleSyntax_def)

lemma keeps_handlePackageDeclaration [simp]: "keeps s (handlePackageDeclaration s v)"
  by (simp add: keeps_def handlePackageDeclaration_def updCurrentPkgInfo_def say_def split: option.splits)

lemma candidates_saveMapping:
  "candidates (saveMapping s a b) k = (if k = a then candidates s a @ [b] else candidates s k)"
  by (auto simp: candidates_def saveMapping_def say_def AList.update_conv' split: option.splits)

lemma types237_saveMapping [simp]: "types237 (saveMapping s a b) = types237 s"
  by (simp add: saveMapping_def say_def split: option.splits)

lemma candidates_getUniqueName [simp]: "candidates (snd (getUniqueName s a b)) = candidates s"
  by (simp add: candidates_def fun_eq_iff)

lemma candidates_types237_upd [simp]: "candidates (s\<lparr>types237 := t\<rparr>) = candidates s"
  by (simp add: candidates_def fun_eq_iff)




lemma registered_handleEnumDeclaration:
  "registered (handleEnumDeclaration E s p nm pos els) nm (getFullName p nm)"
  by (simp add: registered_def handleEnumDeclaration_def Let_def split_beta candidates_saveMapping
        AList.dom_update)



lemma regLe_upd [simp]:
  "regLe s (s'\<lparr>diveDepth := a\<rparr>) = regLe s s'"
  "regLe s (s'\<lparr>pkg := b\<rparr>) = regLe s s'"
  "regLe s (s'\<lparr>proto := c\<rparr>) = regLe s s'"
  "regLe s (s'\<lparr>outputFile := d\<rparr>) = regLe s s'"
  "regLe s (s'\<lparr>knownFiles := e\<rparr>) = regLe s s'"
  "regLe s (s'\<lparr>rootDir := f\<rparr>) = regLe s s'"
  "regLe s (s'\<lparr>selection := g\<rparr>) = regLe s s'"
  "regLe s (say h s') = regLe s s'"
  "regLe (s'\<lparr>diveDepth := a\<rparr>) t = regLe s' t"
  "regLe (s'\<lparr>knownFiles := e\<rparr>) t = regLe s' t"
  "regLe (s'\<lparr>outputFile := d\<rparr>) t = regLe s' t"
  "regLe (s'\<lparr>proto := c\<rparr>) t = regLe s' t"
  "regLe (s'\<lparr>rootDir := f\<rparr>) t = regLe s' t"
  "regLe (s'\<lparr>selection := g\<rparr>) t = regLe s' t"
  "regLe (say h s') t = regLe s' t"
  by (simp_all add: regLe_def candidates_def say_def)





lemma plain_not_message: "plainElement e \<Longrightarrow> e \<noteq> EMessage nm ext pos body"
  by (auto simp: plainElement_def)













end
